theory Spec2Isabelle
  imports Complex_Main "HOL-Library.Word" "HOL-Library.Multiset" "HOL-Library.Product_Lexorder"
begin

section \<open>JavaScript strings\<close>

text \<open>
  A JavaScript string is a sequence of UTF-16 code units; \<open>length\<close>, \<open>slice\<close>,
  \<open>trim\<close> and the regular expressions of the source all count code units.
  \<open>js\<close> embeds an ASCII literal of the source.
\<close>

type_synonym jschar = "16 word"
type_synonym jsstring = "jschar list"

definition js :: "string \<Rightarrow> jsstring" where
  "js s = map (\<lambda>c. of_nat (of_char c)) s"

definition LF :: jschar where "LF = 0xA"
definition CR :: jschar where "CR = 0xD"
definition HASH :: jschar where "HASH = 0x23"

text \<open>
  ECMAScript \<open>LineTerminator\<close> (what \<open>.\<close> of a regular expression refuses) and
  \<open>WhiteSpace\<close> + \<open>LineTerminator\<close> (what \<open>trim\<close> removes and \<open>\s\<close> accepts).
\<close>

definition is_line_terminator :: "jschar \<Rightarrow> bool" where
  "is_line_terminator c \<longleftrightarrow> c = 0xA \<or> c = 0xD \<or> c = 0x2028 \<or> c = 0x2029"

definition is_ws :: "jschar \<Rightarrow> bool" where
  "is_ws c \<longleftrightarrow>
     c = 0x9 \<or> c = 0xB \<or> c = 0xC \<or> c = 0x20 \<or> c = 0xA0 \<or> c = 0xFEFF \<or>
     c = 0x1680 \<or> (0x2000 \<le> c \<and> c \<le> 0x200A) \<or> c = 0x202F \<or> c = 0x205F \<or> c = 0x3000 \<or>
     is_line_terminator c"

definition trim :: "jsstring \<Rightarrow> jsstring" where
  "trim s = rev (dropWhile is_ws (rev (dropWhile is_ws s)))"

text \<open>\<open>xs.join(sep)\<close>\<close>

fun join :: "jsstring \<Rightarrow> jsstring list \<Rightarrow> jsstring" where
  "join sep [] = []"
| "join sep [x] = x"
| "join sep (x # y # ys) = x @ sep @ join sep (y # ys)"

text \<open>\<open>s.slice(i, j)\<close> for \<open>0 \<le> i \<le> j\<close>\<close>

definition slice :: "'a list \<Rightarrow> nat \<Rightarrow> nat \<Rightarrow> 'a list" where
  "slice s i j = take (j - i) (drop i s)"

section \<open>Chunker: \<open>splitMarkdown\<close> (src/rag/markdown)\<close>

record MdChunk =
  md_text :: jsstring
  md_section :: "jsstring option"

text \<open>\<open>md.split(/\r?\n/)\<close>: the separator is LF, or CR LF when a CR stands before it.\<close>

fun cons_first :: "jschar \<Rightarrow> jsstring list \<Rightarrow> jsstring list" where
  "cons_first c [] = [[c]]"
| "cons_first c (l # ls) = (c # l) # ls"

fun split_lines :: "jsstring \<Rightarrow> jsstring list" where
  "split_lines [] = [[]]"
| "split_lines [c] = (if c = LF then [[], []] else [[c]])"
| "split_lines (c # d # cs) =
     (if c = LF then [] # split_lines (d # cs)
      else if c = CR \<and> d = LF then [] # split_lines cs
      else cons_first c (split_lines (d # cs)))"

text \<open>
  \<open>line.match(/^#{2,6}\s+(.+)$/)\<close>, giving the group \<open>h[1]\<close> of the match.  The
  hashes are followed by white space, so \<open>#{2,6}\<close> takes all the leading hashes;
  \<open>\s+\<close> is greedy and gives characters back until \<open>(.+)$\<close> matches the rest, which
  has to be non-empty and free of line terminators.
\<close>

definition dot_plus_end :: "jsstring \<Rightarrow> bool" where
  "dot_plus_end r \<longleftrightarrow> r \<noteq> [] \<and> list_all (\<lambda>c. \<not> is_line_terminator c) r"

definition heading_match :: "jsstring \<Rightarrow> jsstring option" where
  "heading_match line =
     (let n = length (takeWhile (\<lambda>c. c = HASH) line);
          rest = drop n line;
          w = length (takeWhile is_ws rest)
      in if 2 \<le> n \<and> n \<le> 6
         then map_option (\<lambda>j. drop j rest)
                (List.find (\<lambda>j. dot_plus_end (drop j rest)) (rev [1..<Suc w]))
         else None)"

record split_state =
  chunks :: "MdChunk list"
  buf :: "jsstring list"
  currentSection :: "jsstring option"

text \<open>The closure \<open>push\<close>: flush the buffer as one chunk, unless its trimmed text is empty.\<close>

definition push :: "split_state \<Rightarrow> split_state" where
  "push st =
     (if buf st = [] then st
      else let text = trim (join [LF] (buf st))
           in st\<lparr>chunks := (if text \<noteq> []
                              then chunks st @ [\<lparr>md_text = text, md_section = currentSection st\<rparr>]
                              else chunks st),
                  buf := []\<rparr>)"

text \<open>
  \<open>for (let i = 0; i < text.length; i += maxLen) parts.push(text.slice(i, i + maxLen))\<close>.
  With \<open>maxLen = 0\<close> the index never advances and the loop does not return: the value
  is \<open>None\<close>.
\<close>

partial_function (option) parts_loop ::
  "jsstring \<Rightarrow> nat \<Rightarrow> nat \<Rightarrow> jsstring list \<Rightarrow> jsstring list option" where
  "parts_loop text maxLen i parts =
     (if i < length text
      then parts_loop text maxLen (i + maxLen) (parts @ [slice text i (i + maxLen)])
      else Some parts)"

declare parts_loop.simps [code]

text \<open>One turn of \<open>for (const line of lines)\<close>.\<close>

definition split_line :: "nat \<Rightarrow> nat \<Rightarrow> jsstring \<Rightarrow> split_state \<Rightarrow> split_state option" where
  "split_line maxLen overlap line st0 =
     (let st1 = (case heading_match line of
                   Some h1 \<Rightarrow> (push st0)\<lparr>currentSection := Some (trim h1)\<rparr>
                 | None \<Rightarrow> st0);
          st2 = st1\<lparr>buf := buf st1 @ [line]\<rparr>
      in if length (join [LF] (buf st2)) > maxLen + overlap
         then (case parts_loop (join [LF] (buf st2)) maxLen 0 [] of
                 None \<Rightarrow> None
               | Some parts \<Rightarrow>
                   Some (st2\<lparr>chunks := chunks st2 @
                                map (\<lambda>p. \<lparr>md_text = trim p, md_section = currentSection st2\<rparr>) parts,
                              buf := []\<rparr>))
         else Some st2)"

fun split_loop :: "nat \<Rightarrow> nat \<Rightarrow> jsstring list \<Rightarrow> split_state \<Rightarrow> split_state option" where
  "split_loop maxLen overlap [] st = Some st"
| "split_loop maxLen overlap (line # lines) st =
     (case split_line maxLen overlap line st of
        None \<Rightarrow> None
      | Some st' \<Rightarrow> split_loop maxLen overlap lines st')"

definition splitMarkdown :: "jsstring \<Rightarrow> nat \<Rightarrow> nat \<Rightarrow> MdChunk list option" where
  "splitMarkdown md maxLen overlap =
     (case split_loop maxLen overlap (split_lines md)
             \<lparr>chunks = [], buf = [], currentSection = None\<rparr> of
        None \<Rightarrow> None
      | Some st \<Rightarrow> Some (chunks (push st)))"

section \<open>Numbers\<close>

text \<open>
  A JavaScript number is an IEEE double: \<open>NaN\<close>, an infinity, or a finite value.
  The finite doubles are among the reals, and \<open>Num\<close> takes any real.
\<close>

datatype number = NaN | NegInf | Num real | PosInf

text \<open>
  The arithmetic of doubles, with its rounding and its overflow, is not written out:
  the sum, the product, the quotient and the square root of doubles, and the double
  that the literal \<open>1e-12\<close> denotes, are taken as given.
\<close>

record double_arith =
  d_add :: "number \<Rightarrow> number \<Rightarrow> number"
  d_mul :: "number \<Rightarrow> number \<Rightarrow> number"
  d_div :: "number \<Rightarrow> number \<Rightarrow> number"
  d_sqrt :: "number \<Rightarrow> number"
  d_1e_12 :: number

text \<open>\<open>x + y\<close>, \<open>x * y\<close>, \<open>x / y\<close>, \<open>Math.sqrt(x)\<close>: an operand \<open>NaN\<close> gives \<open>NaN\<close>.\<close>

definition nadd :: "double_arith \<Rightarrow> number \<Rightarrow> number \<Rightarrow> number" where
  "nadd fp x y = (if x = NaN \<or> y = NaN then NaN else d_add fp x y)"

definition nmul :: "double_arith \<Rightarrow> number \<Rightarrow> number \<Rightarrow> number" where
  "nmul fp x y = (if x = NaN \<or> y = NaN then NaN else d_mul fp x y)"

definition ndiv :: "double_arith \<Rightarrow> number \<Rightarrow> number \<Rightarrow> number" where
  "ndiv fp x y = (if x = NaN \<or> y = NaN then NaN else d_div fp x y)"

definition nsqrt :: "double_arith \<Rightarrow> number \<Rightarrow> number" where
  "nsqrt fp x = (if x = NaN then NaN else d_sqrt fp x)"

text \<open>
  The sign of \<open>x - y\<close>, as \<open>sort\<close> reads the value of a comparator: a \<open>NaN\<close> (an
  operand \<open>NaN\<close>, or two infinities of one sign) counts as \<open>0\<close>.  The difference of
  two doubles is rounded, and its sign is the sign of the exact difference: two
  doubles that differ do so by a multiple of the least positive double.
\<close>

datatype sign = Minus | Zero | Plus

fun difference_sign :: "number \<Rightarrow> number \<Rightarrow> sign" where
  "difference_sign NaN y = Zero"
| "difference_sign x NaN = Zero"
| "difference_sign (Num x) (Num y) = (if x < y then Minus else if y < x then Plus else Zero)"
| "difference_sign PosInf PosInf = Zero"
| "difference_sign NegInf NegInf = Zero"
| "difference_sign PosInf y = Plus"
| "difference_sign NegInf y = Minus"
| "difference_sign x PosInf = Minus"
| "difference_sign x NegInf = Plus"

text \<open>\<open>xs[i]\<close> used as a number: \<open>undefined\<close> past the end.\<close>

definition num_at :: "number list \<Rightarrow> nat \<Rightarrow> number" where
  "num_at xs i = (if i < length xs then xs ! i else NaN)"

section \<open>Vector index: \<open>InMemoryVectorStore\<close> (src/rag/embeddings.store.ts)\<close>

record EmbedChunkMeta =
  docId :: jsstring
  filename :: jsstring
  meta_section :: "jsstring option"

text \<open>\<open>Omit<EmbedChunk, 'vector'>\<close> and \<open>EmbedChunk\<close>\<close>

record EmbedEntry =
  ec_id :: jsstring
  ec_text :: jsstring
  ec_meta :: EmbedChunkMeta

record EmbedChunk = EmbedEntry +
  ec_vector :: "number list"

record InMemoryVectorStore =
  dim :: "nat option"
  items :: "EmbedChunk list"

text \<open>
  \<open>addMany\<close> pairs chunk \<open>i\<close> with \<open>vectors[i]\<close>.  Its caller passes as many vectors
  as chunks; a chunk without a vector would be stored with \<open>undefined\<close>, outside the
  declared type, and has no place in the model.
\<close>

definition addMany ::
  "InMemoryVectorStore \<Rightarrow> EmbedEntry list \<Rightarrow> number list list \<Rightarrow> InMemoryVectorStore" where
  "addMany store cs vectors =
     \<lparr>dim = (case (dim store, vectors) of
                (None, v # _) \<Rightarrow> Some (length v)
              | _ \<Rightarrow> dim store),
      items = items store @
              map (\<lambda>(c, v). \<lparr>ec_id = ec_id c, ec_text = ec_text c, ec_meta = ec_meta c,
                              ec_vector = v\<rparr>) (zip cs vectors)\<rparr>"

text \<open>The loop of \<open>cosine\<close> over \<open>i = 0 .. a.length - 1\<close>, on \<open>(dot, na, nb)\<close>.\<close>

definition cosine_step ::
  "double_arith \<Rightarrow> number list \<Rightarrow> number list \<Rightarrow> number \<times> number \<times> number \<Rightarrow> nat
     \<Rightarrow> number \<times> number \<times> number" where
  "cosine_step fp a b acc i =
     (case acc of (dot, na, nb) \<Rightarrow>
        (nadd fp dot (nmul fp (num_at a i) (num_at b i)),
         nadd fp na (nmul fp (num_at a i) (num_at a i)),
         nadd fp nb (nmul fp (num_at b i) (num_at b i))))"

definition cosine :: "double_arith \<Rightarrow> number list \<Rightarrow> number list \<Rightarrow> number" where
  "cosine fp a b =
     (case foldl (cosine_step fp a b) (Num 0, Num 0, Num 0) [0..<length a] of
        (dot, na, nb) \<Rightarrow>
          ndiv fp dot (nadd fp (nmul fp (nsqrt fp na) (nsqrt fp nb)) (d_1e_12 fp)))"

text \<open>
  \<open>Array.prototype.sort\<close> is stable and reads the comparator by its sign: \<open>x\<close> goes
  behind \<open>y\<close> only when \<open>cmp x y > 0\<close>.  Where the comparator is not consistent the
  order is left to the implementation; this is the order of a stable insertion sort.
\<close>

fun sort_insert :: "('a \<Rightarrow> 'a \<Rightarrow> sign) \<Rightarrow> 'a \<Rightarrow> 'a list \<Rightarrow> 'a list" where
  "sort_insert cmp x [] = [x]"
| "sort_insert cmp x (y # ys) =
     (if cmp x y = Plus then y # sort_insert cmp x ys else x # y # ys)"

fun js_sort :: "('a \<Rightarrow> 'a \<Rightarrow> sign) \<Rightarrow> 'a list \<Rightarrow> 'a list" where
  "js_sort cmp [] = []"
| "js_sort cmp (x # xs) = sort_insert cmp x (js_sort cmp xs)"

text \<open>The comparator is \<open>(a, b) => b.s - a.s\<close>.\<close>

definition search ::
  "double_arith \<Rightarrow> InMemoryVectorStore \<Rightarrow> number list \<Rightarrow> nat \<Rightarrow> EmbedChunk list" where
  "search fp store queryVec k =
     (let scores = map (\<lambda>it. (it, cosine fp queryVec (ec_vector it))) (items store);
          sorted = js_sort (\<lambda>a b. difference_sign (snd b) (snd a)) scores
      in map fst (take k sorted))"

definition count :: "InMemoryVectorStore \<Rightarrow> nat" where
  "count store = length (items store)"

definition isEmpty :: "InMemoryVectorStore \<Rightarrow> bool" where
  "isEmpty store \<longleftrightarrow> count store = 0"

section \<open>Errors, backend replies and the environment\<close>

text \<open>
  What \<open>axios\<close> throws when a request fails: \<open>err.response?.data?.error\<close> (absent
  when there is no response or no such field) and \<open>err.message\<close>.
\<close>

record AxiosError =
  response_data_error :: "jsstring option"
  ax_message :: jsstring

datatype js_error =
    Error jsstring
  | SyntaxError
  | TypeError
  | Axios AxiosError

datatype 'a axios = Failure AxiosError | Response 'a

text \<open>The body of a reply, of type \<open>any\<close> in the source.\<close>

datatype js_value =
    JUndefined
  | JNull
  | JBool bool
  | JNumber number
  | JString jsstring
  | JArray "js_value list"
  | JObject "(jsstring \<times> js_value) list"

text \<open>\<open>data?.embedding\<close>: only an object has the property.\<close>

fun embedding_of :: "js_value \<Rightarrow> js_value" where
  "embedding_of (JObject props) =
     (case map_of props (js ''embedding'') of Some v \<Rightarrow> v | None \<Rightarrow> JUndefined)"
| "embedding_of _ = JUndefined"

fun truthy :: "js_value \<Rightarrow> bool" where
  "truthy JUndefined = False"
| "truthy JNull = False"
| "truthy (JBool b) = b"
| "truthy (JNumber n) = (n \<noteq> NaN \<and> n \<noteq> Num 0)"
| "truthy (JString s) = (s \<noteq> [])"
| "truthy (JArray _) = True"
| "truthy (JObject _) = True"

fun isArray :: "js_value \<Rightarrow> bool" where
  "isArray (JArray _) = True"
| "isArray _ = False"

text \<open>
  \<open>data.embedding as number[]\<close>.  The cast checks nothing; an element that is not a
  number stands in the model as \<open>NaN\<close>, its coercion by later arithmetic is not
  modelled.
\<close>

fun as_number :: "js_value \<Rightarrow> number" where
  "as_number (JNumber n) = n"
| "as_number _ = NaN"

fun as_number_array :: "js_value \<Rightarrow> number list" where
  "as_number_array (JArray xs) = map as_number xs"
| "as_number_array _ = []"

text \<open>A record of the generation stream, as \<open>JSON.parse(...) as OllamaStreamChunk\<close>.\<close>

record OllamaStreamChunk =
  ch_response :: "jsstring option"
  ch_done :: "bool option"
  ch_error :: "jsstring option"

text \<open>
  The lines that \<open>readline\<close> delivers from the response stream, and the error the
  stream ends with, if it fails after them.
\<close>

record line_stream =
  ls_lines :: "jsstring list"
  ls_error :: "js_error option"

text \<open>
  The environment of the service, over a state \<open>'w\<close> of the outside world: the two
  backend calls (model, prompt), \<open>crypto.randomUUID\<close>, \<open>JSON.parse\<close> read at the
  type \<open>OllamaStreamChunk\<close> (\<open>None\<close> when it throws \<open>SyntaxError\<close>; a value without
  fields, such as \<open>null\<close>, is the record with no field), and the arithmetic of
  doubles.
\<close>

record 'w env =
  post_embeddings :: "jsstring \<Rightarrow> jsstring \<Rightarrow> 'w \<Rightarrow> js_value axios \<times> 'w"
  post_generate :: "jsstring \<Rightarrow> jsstring \<Rightarrow> 'w \<Rightarrow> line_stream axios \<times> 'w"
  randomUUID :: "'w \<Rightarrow> jsstring \<times> 'w"
  JSON_parse :: "jsstring \<Rightarrow> OllamaStreamChunk option"
  fpu :: double_arith

section \<open>Embedding client: \<open>OllamaEmbeddings.embed\<close>\<close>

definition embedding_invalid :: js_error where
  "embedding_invalid = Error (js ''Embedding invalide depuis Ollama'')"

fun embed_loop ::
  "'w env \<Rightarrow> jsstring \<Rightarrow> jsstring list \<Rightarrow> number list list \<Rightarrow> 'w
     \<Rightarrow> (js_error + number list list) \<times> 'w" where
  "embed_loop env model [] vectors w = (Inr vectors, w)"
| "embed_loop env model (t # ts) vectors w =
     (case post_embeddings env model t w of
        (Failure e, w') \<Rightarrow> (Inl (Axios e), w')
      | (Response data, w') \<Rightarrow>
          if \<not> truthy (embedding_of data) \<or> \<not> isArray (embedding_of data)
          then (Inl embedding_invalid, w')
          else embed_loop env model ts (vectors @ [as_number_array (embedding_of data)]) w')"

definition embed ::
  "'w env \<Rightarrow> jsstring \<Rightarrow> jsstring list \<Rightarrow> 'w \<Rightarrow> (js_error + number list list) \<times> 'w" where
  "embed env model texts w = embed_loop env model texts [] w"

section \<open>The service: \<open>OllamaService\<close>\<close>

datatype role = User | Assistant

record ConversationTurn =
  role :: role
  content :: jsstring

record MarkdownDocument =
  doc_id :: jsstring
  doc_name :: jsstring
  doc_size :: number
  doc_content :: jsstring

text \<open>The configuration read by the constructor, and the vector store.\<close>

record OllamaService =
  ollamaModel :: jsstring
  defaultSystemPrompt :: jsstring
  embedModel :: jsstring
  vectorStore :: InMemoryVectorStore

subsection \<open>\<open>indexDocuments\<close>\<close>

definition MAX_DOCS :: nat where "MAX_DOCS = 20"
definition MAX_CHUNKS_PER_DOC :: nat where "MAX_CHUNKS_PER_DOC = 80"
definition MAX_CHARS_PER_DOC :: nat where "MAX_CHARS_PER_DOC = 200000"

text \<open>\<open>for (const ch of chunks)\<close>, on \<open>(toAddTexts, toAddMetas)\<close>.\<close>

fun index_chunks ::
  "'w env \<Rightarrow> MarkdownDocument \<Rightarrow> MdChunk list \<Rightarrow> jsstring list \<times> EmbedEntry list \<Rightarrow> 'w
     \<Rightarrow> (jsstring list \<times> EmbedEntry list) \<times> 'w" where
  "index_chunks env doc [] acc w = (acc, w)"
| "index_chunks env doc (ch # chs) acc w =
     (case acc of (toAddTexts, toAddMetas) \<Rightarrow>
        (case randomUUID env w of (uuid, w') \<Rightarrow>
           index_chunks env doc chs
             (toAddTexts @ [md_text ch],
              toAddMetas @ [\<lparr>ec_id = uuid, ec_text = md_text ch,
                              ec_meta = \<lparr>docId = doc_id doc, filename = doc_name doc,
                                         meta_section = md_section ch\<rparr>\<rparr>])
             w'))"

text \<open>\<open>for (const doc of documents.slice(0, MAX_DOCS))\<close>\<close>

fun index_docs ::
  "'w env \<Rightarrow> MarkdownDocument list \<Rightarrow> jsstring list \<times> EmbedEntry list \<Rightarrow> 'w
     \<Rightarrow> ((jsstring list \<times> EmbedEntry list) \<times> 'w) option" where
  "index_docs env [] acc w = Some (acc, w)"
| "index_docs env (doc # docs) acc w =
     (let safe = slice (doc_content doc) 0 MAX_CHARS_PER_DOC
      in case splitMarkdown safe 1200 150 of
           None \<Rightarrow> None
         | Some cs \<Rightarrow>
             (case index_chunks env doc (slice cs 0 MAX_CHUNKS_PER_DOC) acc w of
                (acc', w') \<Rightarrow> index_docs env docs acc' w'))"

text \<open>
  The result is \<open>None\<close> if the call does not return; otherwise the error raised or
  the service with its store updated, and the state of the world.
\<close>

definition indexDocuments ::
  "'w env \<Rightarrow> OllamaService \<Rightarrow> MarkdownDocument list \<Rightarrow> 'w
     \<Rightarrow> ((js_error + OllamaService) \<times> 'w) option" where
  "indexDocuments env svc documents w =
     (if documents = [] then Some (Inr svc, w)
      else case index_docs env (slice documents 0 MAX_DOCS) ([], []) w of
             None \<Rightarrow> None
           | Some ((toAddTexts, toAddMetas), w1) \<Rightarrow>
               if toAddTexts = [] then Some (Inr svc, w1)
               else (case embed env (embedModel svc) toAddTexts w1 of
                       (Inl e, w2) \<Rightarrow> Some (Inl e, w2)
                     | (Inr vectors, w2) \<Rightarrow>
                         Some (Inr (svc\<lparr>vectorStore :=
                                          addMany (vectorStore svc) toAddMetas vectors\<rparr>), w2)))"

subsection \<open>\<open>retrieveContext\<close>\<close>

record source =
  src_n :: nat
  src_filename :: jsstring
  src_section :: "jsstring option"

record RetrievalResult =
  contextBlock :: jsstring
  sources :: "source list"

text \<open>The decimal digits of \<open>${i + 1}\<close>.\<close>

fun decimal :: "nat \<Rightarrow> jsstring" where
  "decimal n = (if n < 10 then [] else decimal (n div 10)) @ [0x30 + of_nat (n mod 10)]"

definition hit_block :: "nat \<times> EmbedChunk \<Rightarrow> jsstring" where
  "hit_block p =
     (case p of (i, h) \<Rightarrow>
        js ''### ['' @ decimal (i + 1) @ js ''] '' @ filename (ec_meta h) @
        (case meta_section (ec_meta h) of
           Some s \<Rightarrow> if s \<noteq> [] then js '' > '' @ s else []
         | None \<Rightarrow> []) @
        [LF] @ ec_text h)"

definition hit_source :: "nat \<times> EmbedChunk \<Rightarrow> source" where
  "hit_source p =
     (case p of (i, h) \<Rightarrow>
        \<lparr>src_n = i + 1, src_filename = filename (ec_meta h),
         src_section = meta_section (ec_meta h)\<rparr>)"

definition retrieval_of :: "EmbedChunk list \<Rightarrow> RetrievalResult" where
  "retrieval_of hits =
     \<lparr>contextBlock = join (js ''\<newline>\<newline>---\<newline>\<newline>'') (map hit_block (enumerate 0 hits)),
      sources = map hit_source (enumerate 0 hits)\<rparr>"

text \<open>
  \<open>const [qVec] = await this.embeddings.embed([query])\<close>.  Were the list of vectors
  empty, \<open>qVec\<close> would be \<open>undefined\<close>: \<open>search\<close> then returns nothing on an empty
  store and fails on \<open>a.length\<close> otherwise.
\<close>

definition retrieveContext ::
  "'w env \<Rightarrow> OllamaService \<Rightarrow> jsstring \<Rightarrow> nat \<Rightarrow> 'w \<Rightarrow> (js_error + RetrievalResult) \<times> 'w" where
  "retrieveContext env svc query k w =
     (case embed env (embedModel svc) [query] w of
        (Inl e, w') \<Rightarrow> (Inl e, w')
      | (Inr vectors, w') \<Rightarrow>
          (case vectors of
             qVec # _ \<Rightarrow> (Inr (retrieval_of (search (fpu env) (vectorStore svc) qVec k)), w')
           | [] \<Rightarrow> if items (vectorStore svc) = [] then (Inr (retrieval_of []), w')
                   else (Inl TypeError, w')))"

subsection \<open>\<open>buildPromptWithRetrieval\<close>\<close>

definition citation_instruction :: jsstring where
  "citation_instruction =
     js ''\<newline>Tu citeras les sources sous forme [n] qui correspondent aux blocs ci-dessous.''"

definition turn_block :: "ConversationTurn \<Rightarrow> jsstring" where
  "turn_block t =
     (if role t = User then js ''<user>\<newline>'' @ content t @ js ''\<newline></user>''
      else js ''<assistant>\<newline>'' @ content t @ js ''\<newline></assistant>'')"

text \<open>The part of \<open>buildPromptWithRetrieval\<close> after the retrieval: the prompt text.\<close>

definition prompt_text ::
  "OllamaService \<Rightarrow> jsstring \<Rightarrow> ConversationTurn list \<Rightarrow> jsstring option \<Rightarrow> jsstring \<Rightarrow> jsstring" where
  "prompt_text svc message history systemPrompt block =
     (let activeSystemPrompt =
            (case systemPrompt of
               Some s \<Rightarrow> if trim s \<noteq> [] then trim s else defaultSystemPrompt svc
             | None \<Rightarrow> defaultSystemPrompt svc) @ citation_instruction;
          sanitizedHistory =
            filter (\<lambda>t. length (content t) > 0)
              (map (\<lambda>t. \<lparr>role = role t, content = trim (content t)\<rparr>) history);
          historySection = join [LF] (map turn_block sanitizedHistory);
          conversationBlock =
            join [LF] (filter (\<lambda>x. x \<noteq> [])
              [historySection, js ''<user>\<newline>'' @ message @ js ''\<newline></user>'',
               js ''<assistant>\<newline>'']);
          documentsContext =
            js ''\<newline>\<newline><documents>\<newline>Voici des passages pertinents issus de la base :\<newline>\<newline>'' @
            block @ js ''\<newline></documents>''
      in activeSystemPrompt @ documentsContext @ js ''\<newline>\<newline><conversation>\<newline>'' @
         conversationBlock @ js ''\<newline></conversation>'')"

definition buildPromptWithRetrieval ::
  "'w env \<Rightarrow> OllamaService \<Rightarrow> jsstring \<Rightarrow> ConversationTurn list \<Rightarrow> jsstring option \<Rightarrow>
   MarkdownDocument list option \<Rightarrow> 'w
     \<Rightarrow> ((js_error + jsstring \<times> source list) \<times> OllamaService \<times> 'w) option" where
  "buildPromptWithRetrieval env svc message history systemPrompt documents w =
     (case (case documents of
              Some ds \<Rightarrow> if ds \<noteq> [] then indexDocuments env svc ds w else Some (Inr svc, w)
            | None \<Rightarrow> Some (Inr svc, w)) of
        None \<Rightarrow> None
      | Some (Inl e, w1) \<Rightarrow> Some (Inl e, svc, w1)
      | Some (Inr svc1, w1) \<Rightarrow>
          (case retrieveContext env svc1 message 6 w1 of
             (Inl e, w2) \<Rightarrow> Some (Inl e, svc1, w2)
           | (Inr r, w2) \<Rightarrow>
               Some (Inr (prompt_text svc1 message history systemPrompt (contextBlock r),
                          sources r), svc1, w2)))"

subsection \<open>\<open>streamChat\<close> and \<open>chat\<close>\<close>

text \<open>
  What an async generator does for its consumer: it yields a fragment and goes on,
  returns, or throws.
\<close>

datatype gen = Yield jsstring gen | Return | Throw js_error

fun fragments :: "gen \<Rightarrow> jsstring list" where
  "fragments (Yield f g) = f # fragments g"
| "fragments Return = []"
| "fragments (Throw e) = []"

fun raised :: "gen \<Rightarrow> js_error option" where
  "raised (Yield f g) = raised g"
| "raised Return = None"
| "raised (Throw e) = Some e"

text \<open>
  The head of the loop body: \<open>trimmedLine\<close> and \<open>jsonPayload\<close>; \<open>None\<close> is
  \<open>continue\<close>.
\<close>

definition line_payload :: "jsstring \<Rightarrow> jsstring option" where
  "line_payload line =
     (let trimmedLine = trim line
      in if trimmedLine = [] then None
         else let jsonPayload = (if take 5 trimmedLine = js ''data:''
                                 then trim (drop 5 trimmedLine) else trimmedLine)
              in if jsonPayload = [] then None else Some jsonPayload)"

text \<open>A field read for its truth value: a string that is present and not empty.\<close>

fun present :: "jsstring option \<Rightarrow> jsstring option" where
  "present (Some s) = (if s \<noteq> [] then Some s else None)"
| "present None = None"

text \<open>
  The inner \<open>try\<close> block: what it throws, or the fragment it yields (if any) and
  whether it leaves the loop by \<open>break\<close>.
\<close>

definition try_body ::
  "(jsstring \<Rightarrow> OllamaStreamChunk option) \<Rightarrow> jsstring \<Rightarrow> js_error + jsstring option \<times> bool" where
  "try_body parse jsonPayload =
     (case parse jsonPayload of
        None \<Rightarrow> Inl SyntaxError
      | Some chunk \<Rightarrow>
          (case present (ch_error chunk) of
             Some e \<Rightarrow> Inl (Error e)
           | None \<Rightarrow> Inr (present (ch_response chunk), ch_done chunk = Some True)))"

text \<open>
  \<open>for await (const line of reader)\<close>; the \<open>catch\<close> of the inner \<open>try\<close> is empty,
  so whatever the block throws, the loop goes on to the next line.
\<close>

fun decode :: "(jsstring \<Rightarrow> OllamaStreamChunk option) \<Rightarrow> js_error option \<Rightarrow> jsstring list \<Rightarrow> gen" where
  "decode parse fin [] = (case fin of None \<Rightarrow> Return | Some e \<Rightarrow> Throw e)"
| "decode parse fin (line # rest) =
     (case line_payload line of
        None \<Rightarrow> decode parse fin rest
      | Some jsonPayload \<Rightarrow>
          (case try_body parse jsonPayload of
             Inl _ \<Rightarrow> decode parse fin rest
           | Inr (fragment, stop) \<Rightarrow>
               (let after = (if stop then Return else decode parse fin rest)
                in case fragment of Some f \<Rightarrow> Yield f after | None \<Rightarrow> after)))"

text \<open>The outer \<open>catch\<close>: an axios error is thrown again as a new \<open>Error\<close>.\<close>

fun rethrow :: "js_error \<Rightarrow> js_error" where
  "rethrow (Axios e) =
     Error (js ''Ollama API request failed: '' @
            (case present (response_data_error e) of Some m \<Rightarrow> m | None \<Rightarrow> ax_message e))"
| "rethrow e = e"

fun catch_gen :: "gen \<Rightarrow> gen" where
  "catch_gen (Yield f g) = Yield f (catch_gen g)"
| "catch_gen Return = Return"
| "catch_gen (Throw e) = Throw (rethrow e)"

definition streamChat ::
  "'w env \<Rightarrow> OllamaService \<Rightarrow> jsstring \<Rightarrow> ConversationTurn list \<Rightarrow> jsstring option \<Rightarrow>
   MarkdownDocument list option \<Rightarrow> 'w \<Rightarrow> (gen \<times> OllamaService \<times> 'w) option" where
  "streamChat env svc message history systemPrompt documents w =
     (case buildPromptWithRetrieval env svc message history systemPrompt documents w of
        None \<Rightarrow> None
      | Some (Inl e, svc1, w1) \<Rightarrow> Some (catch_gen (Throw e), svc1, w1)
      | Some (Inr (prompt, srcs), svc1, w1) \<Rightarrow>
          (case post_generate env (ollamaModel svc1) prompt w1 of
             (Failure e, w2) \<Rightarrow> Some (catch_gen (Throw (Axios e)), svc1, w2)
           | (Response stream, w2) \<Rightarrow>
               Some (catch_gen (decode (JSON_parse env) (ls_error stream) (ls_lines stream)),
                     svc1, w2)))"

text \<open>\<open>for await (const chunk of this.streamChat(...)) fullResponse += chunk\<close>\<close>

fun chat_loop :: "jsstring \<Rightarrow> gen \<Rightarrow> js_error + jsstring" where
  "chat_loop fullResponse (Yield chunk g) = chat_loop (fullResponse @ chunk) g"
| "chat_loop fullResponse Return = Inr fullResponse"
| "chat_loop fullResponse (Throw e) = Inl e"

definition chat ::
  "'w env \<Rightarrow> OllamaService \<Rightarrow> jsstring \<Rightarrow> ConversationTurn list \<Rightarrow> jsstring option \<Rightarrow>
   MarkdownDocument list option \<Rightarrow> 'w \<Rightarrow> ((js_error + jsstring) \<times> OllamaService \<times> 'w) option" where
  "chat env svc message history systemPrompt documents w =
     (case streamChat env svc message history systemPrompt documents w of
        None \<Rightarrow> None
      | Some (g, svc1, w1) \<Rightarrow> Some (chat_loop [] g, svc1, w1))"

section \<open>The examples of the specification\<close>

text \<open>
  \<open>JSON.parse\<close> on the lines of the examples, read as \<open>OllamaStreamChunk\<close>; of these
  lines only \<open>not json\<close> is not JSON.  It stands for \<open>JSON.parse\<close> on these lines
  and on no other text.
\<close>

definition example_JSON_parse :: "jsstring \<Rightarrow> OllamaStreamChunk option" where
  \<open>example_JSON_parse s =
     (if s = js ''{"response":"He"}''
      then Some \<lparr>ch_response = Some (js ''He''), ch_done = None, ch_error = None\<rparr>
      else if s = js ''{"response":"llo"}''
      then Some \<lparr>ch_response = Some (js ''llo''), ch_done = None, ch_error = None\<rparr>
      else if s = js ''{"response":"late"}''
      then Some \<lparr>ch_response = Some (js ''late''), ch_done = None, ch_error = None\<rparr>
      else if s = js ''{"done":true}''
      then Some \<lparr>ch_response = None, ch_done = Some True, ch_error = None\<rparr>
      else if s = js ''{"response":"!","done":true}''
      then Some \<lparr>ch_response = Some (js ''!''), ch_done = Some True, ch_error = None\<rparr>
      else if s = js ''{"error":"boom"}''
      then Some \<lparr>ch_response = None, ch_done = None, ch_error = Some (js ''boom'')\<rparr>
      else if s = js ''{"error":"boom","done":true}''
      then Some \<lparr>ch_response = None, ch_done = Some True, ch_error = Some (js ''boom'')\<rparr>
      else None)\<close>

text \<open>
  Arithmetic without rounding, on finite numbers (on an infinity it gives \<open>NaN\<close>).
  On the numbers of the examples below, \<open>0\<close> and \<open>1\<close>, the arithmetic of doubles
  gives the same values but for the last digits of \<open>1e-12\<close> and of the quotient
  \<open>1 / (1 + 1e-12)\<close>, which lies between \<open>0\<close> and \<open>1\<close> either way.
\<close>

fun exact_add :: "number \<Rightarrow> number \<Rightarrow> number" where
  "exact_add (Num x) (Num y) = Num (x + y)"
| "exact_add _ _ = NaN"

fun exact_mul :: "number \<Rightarrow> number \<Rightarrow> number" where
  "exact_mul (Num x) (Num y) = Num (x * y)"
| "exact_mul _ _ = NaN"

fun exact_div :: "number \<Rightarrow> number \<Rightarrow> number" where
  "exact_div (Num x) (Num y) = (if y = 0 then NaN else Num (x / y))"
| "exact_div _ _ = NaN"

fun exact_sqrt :: "number \<Rightarrow> number" where
  "exact_sqrt (Num x) = (if x < 0 then NaN else Num (sqrt x))"
| "exact_sqrt _ = NaN"

definition exact_arith :: double_arith where
  "exact_arith =
     \<lparr>d_add = exact_add, d_mul = exact_mul, d_div = exact_div, d_sqrt = exact_sqrt,
      d_1e_12 = Num (1 / 10 ^ 12)\<rparr>"

text \<open>
  A backend that answers every embedding request with the vector \<open>[1]\<close> and every
  generation request with the given lines; the state of the world counts the
  identifiers drawn.
\<close>

definition example_env :: "jsstring list \<Rightarrow> nat env" where
  "example_env lines =
     \<lparr>post_embeddings =
        (\<lambda>model prompt w. (Response (JObject [(js ''embedding'', JArray [JNumber (Num 1)])]), w)),
      post_generate =
        (\<lambda>model prompt w. (Response \<lparr>ls_lines = lines, ls_error = None\<rparr>, w)),
      randomUUID = (\<lambda>w. (js ''id-'' @ decimal w, Suc w)),
      JSON_parse = example_JSON_parse,
      fpu = exact_arith\<rparr>"

definition example_service :: OllamaService where
  "example_service =
     \<lparr>ollamaModel = js ''gpt-oss:20b'',
      defaultSystemPrompt = js ''Tu es un assistant IA utile et bienveillant.'',
      embedModel = js ''nomic-embed-text'',
      vectorStore = \<lparr>dim = None, items = []\<rparr>\<rparr>"

text \<open>An indexed chunk with the given name and vector.\<close>

definition example_chunk :: "jsstring \<Rightarrow> number list \<Rightarrow> EmbedChunk" where
  "example_chunk name v =
     \<lparr>ec_id = name, ec_text = name,
      ec_meta = \<lparr>docId = name, filename = name, meta_section = None\<rparr>, ec_vector = v\<rparr>"

section \<open>Notions used in the statements and proofs\<close>

text \<open>
  The input with every line break CR LF written as LF; the chunk texts woven with
  gaps (a gap before the first text, between two texts and after the last); a string
  of white space; a string that is the given texts with white space in the gaps; and
  what holds of the chunker between two lines: the lines read so far, joined by LF,
  are the chunk texts with white space in the gaps, followed by the buffer.
\<close>

fun crlf_to_lf :: "jsstring \<Rightarrow> jsstring" where
  "crlf_to_lf (c # d # cs) =
     (if c = CR \<and> d = LF then LF # crlf_to_lf cs else c # crlf_to_lf (d # cs))"
| "crlf_to_lf cs = cs"

fun weave :: "jsstring list \<Rightarrow> jsstring list \<Rightarrow> jsstring" where
  "weave (g # gs) (t # ts) = g @ t @ weave gs ts"
| "weave gs [] = concat gs"
| "weave [] (t # ts) = concat (t # ts)"

definition blank :: "jsstring \<Rightarrow> bool" where
  "blank s = list_all is_ws s"

definition spaced :: "jsstring list \<Rightarrow> jsstring \<Rightarrow> bool" where
  "spaced ts s \<longleftrightarrow>
     (\<exists>gaps. length gaps = Suc (length ts) \<and> list_all blank gaps \<and> weave gaps ts = s)"

definition chunked :: "split_state \<Rightarrow> jsstring list \<Rightarrow> bool" where
  "chunked st ls \<longleftrightarrow>
     (\<exists>e. spaced (map md_text (chunks st)) e \<and> e @ join [LF] (buf st) = join [LF] ls) \<and>
     (buf st = [] \<or> ls \<noteq> [])"

text \<open>
  The order of two similarity scores, from the greater to the smaller (\<open>NaN\<close>
  stands in no order), and a rank that grows as the score falls.
\<close>

fun score_ge :: "number \<Rightarrow> number \<Rightarrow> bool" where
  "score_ge NaN b = False"
| "score_ge a NaN = False"
| "score_ge PosInf b = True"
| "score_ge a NegInf = True"
| "score_ge (Num x) (Num y) = (y \<le> x)"
| "score_ge NegInf b = False"
| "score_ge a PosInf = False"

fun rank :: "number \<Rightarrow> nat \<times> real" where
  "rank PosInf = (0, 0)"
| "rank (Num x) = (1, - x)"
| "rank NegInf = (2, 0)"
| "rank NaN = (3, 0)"

text \<open>
  The replies of the embedding backend to the requests that \<open>embed\<close> makes, in
  order; the requests stop after the first reply that carries no array under
  \<open>embedding\<close> (a failed request, or a response whose field is absent, falsy or not
  an array).
\<close>

fun carries_array :: "js_value axios \<Rightarrow> bool" where
  "carries_array (Response data) = isArray (embedding_of data)"
| "carries_array (Failure e) = False"

fun vector_of :: "js_value axios \<Rightarrow> number list" where
  "vector_of (Response data) = as_number_array (embedding_of data)"
| "vector_of (Failure e) = []"

fun replies :: "'w env \<Rightarrow> jsstring \<Rightarrow> jsstring list \<Rightarrow> 'w \<Rightarrow> js_value axios list" where
  "replies env model [] w = []"
| "replies env model (t # ts) w =
     (case post_embeddings env model t w of
        (r, w') \<Rightarrow> r # (if carries_array r then replies env model ts w' else []))"

fun is_number :: "js_value \<Rightarrow> bool" where
  "is_number (JNumber n) = True"
| "is_number _ = False"

fun numeric_sequence :: "js_value \<Rightarrow> bool" where
  "numeric_sequence (JArray xs) = list_all is_number xs"
| "numeric_sequence _ = False"



text \<open>A document with its content cut to the first 200000 characters.\<close>

definition truncated_doc :: "MarkdownDocument \<Rightarrow> MarkdownDocument" where
  "truncated_doc d = d\<lparr>doc_content := take 200000 (doc_content d)\<rparr>"

section \<open>Properties of the chunker\<close>

lemma is_ws_LF: "is_ws LF"
  by (simp add: is_ws_def is_line_terminator_def LF_def)

lemma parts_loop_total:
  "0 < maxLen \<Longrightarrow>
   \<exists>ps. parts_loop text maxLen i parts = Some (parts @ ps) \<and> concat ps = drop i text"
proof (induction "length text - i" arbitrary: i parts rule: less_induct)
  case less
  show ?case
  proof (cases "i < length text")
    case False
    then show ?thesis by (subst parts_loop.simps) simp
  next
    case True
    with less.prems have "length text - (i + maxLen) < length text - i" by arith
    from less.hyps [OF this less.prems, of "parts @ [slice text i (i + maxLen)]"]
    obtain ps where ps: "parts_loop text maxLen (i + maxLen) (parts @ [slice text i (i + maxLen)])
          = Some ((parts @ [slice text i (i + maxLen)]) @ ps)" "concat ps = drop (i + maxLen) text"
      by blast
    have "take maxLen (drop i text) @ drop (i + maxLen) text = drop i text"
      by (metis add.commute append_take_drop_id drop_drop)
    with ps True show ?thesis
      by (subst parts_loop.simps) (simp add: slice_def)
  qed
qed

lemma buf_push: "buf (push st) = []"
  by (simp add: push_def Let_def)

lemma cons_first_nonempty: "cons_first c ls \<noteq> []"
  by (cases ls) simp_all

lemma split_lines_nonempty: "split_lines md \<noteq> []"
  by (induction md rule: split_lines.induct) (simp_all add: cons_first_nonempty)

lemma join_Cons: "ls \<noteq> [] \<Longrightarrow> join sep (l # ls) = l @ sep @ join sep ls"
  by (cases ls) simp_all

lemma join_cons_first: "ls \<noteq> [] \<Longrightarrow> join sep (cons_first c ls) = c # join sep ls"
proof (cases ls)
  case Nil
  then show ?thesis by simp
next
  case (Cons a list)
  then show ?thesis by (cases list) simp_all
qed

lemma join_split_lines: "join [LF] (split_lines md) = crlf_to_lf md"
proof (induction md rule: split_lines.induct)
  case 1
  then show ?case by simp
next
  case (2 c)
  then show ?case by simp
next
  case (3 c d cs)
  then show ?case
    by (auto simp: join_Cons join_cons_first split_lines_nonempty CR_def LF_def)
qed

lemma join_snoc: "xs \<noteq> [] \<Longrightarrow> join sep (xs @ [x]) = join sep xs @ sep @ x"
  by (induction sep xs rule: join.induct) simp_all

lemma blank_append: "blank (xs @ ys) \<longleftrightarrow> blank xs \<and> blank ys"
  by (simp add: blank_def)

lemma spaced_absorb:
  assumes "spaced ts s" "blank w"
  shows "spaced ts (s @ w)"
proof -
  have "length gaps = Suc (length ts) \<Longrightarrow> list_all blank gaps \<Longrightarrow>
        \<exists>gaps'. length gaps' = Suc (length ts) \<and> list_all blank gaps' \<and>
                 weave gaps' ts = weave gaps ts @ w" for gaps
  proof (induction ts arbitrary: gaps)
    case Nil
    then obtain g where g: "gaps = [g]" by (cases gaps) auto
    with Nil assms(2) have "length [g @ w] = Suc (length ([] :: jsstring list)) \<and>
        list_all blank [g @ w] \<and> weave [g @ w] [] = weave gaps [] @ w"
      by (simp add: blank_append)
    then show ?case by blast
  next
    case (Cons t ts)
    then obtain g gs where g: "gaps = g # gs" by (cases gaps) auto
    with Cons.prems have "length gs = Suc (length ts)" "list_all blank gs" by simp_all
    from Cons.IH [OF this] obtain gs' where gs':
      "length gs' = Suc (length ts)" "list_all blank gs'" "weave gs' ts = weave gs ts @ w"
      by blast
    with g Cons.prems have "length (g # gs') = Suc (length (t # ts)) \<and>
        list_all blank (g # gs') \<and> weave (g # gs') (t # ts) = weave gaps (t # ts) @ w"
      by simp
    then show ?case by blast
  qed
  with assms(1) show ?thesis unfolding spaced_def by blast
qed

lemma spaced_snoc:
  assumes "spaced ts s" "blank w"
  shows "spaced (ts @ [t]) (s @ t @ w)"
proof -
  have "length gaps = Suc (length ts) \<Longrightarrow> list_all blank gaps \<Longrightarrow>
        \<exists>gaps'. length gaps' = Suc (length (ts @ [t])) \<and> list_all blank gaps' \<and>
                 weave gaps' (ts @ [t]) = weave gaps ts @ t @ w" for gaps
  proof (induction ts arbitrary: gaps)
    case Nil
    then obtain g where g: "gaps = [g]" by (cases gaps) auto
    with Nil assms(2) have "length [g, w] = Suc (length ([] @ [t])) \<and>
        list_all blank [g, w] \<and> weave [g, w] ([] @ [t]) = weave gaps [] @ t @ w"
      by simp
    then show ?case by blast
  next
    case (Cons u ts)
    then obtain g gs where g: "gaps = g # gs" by (cases gaps) auto
    with Cons.prems have "length gs = Suc (length ts)" "list_all blank gs" by simp_all
    from Cons.IH [OF this] obtain gs' where gs':
      "length gs' = Suc (length (ts @ [t]))" "list_all blank gs'"
      "weave gs' (ts @ [t]) = weave gs ts @ t @ w"
      by blast
    with g Cons.prems have "length (g # gs') = Suc (length ((u # ts) @ [t])) \<and>
        list_all blank (g # gs') \<and>
        weave (g # gs') ((u # ts) @ [t]) = weave gaps (u # ts) @ t @ w"
      by simp
    then show ?case by blast
  qed
  with assms(1) show ?thesis unfolding spaced_def by blast
qed

lemma trim_decomposition:
  "\<exists>w1 w2. blank w1 \<and> blank w2 \<and> s = w1 @ trim s @ w2"
proof -
  let ?d = "dropWhile is_ws s"
  let ?r = "rev ?d"
  have 1: "s = takeWhile is_ws s @ ?d" by simp
  have "?r = takeWhile is_ws ?r @ dropWhile is_ws ?r" by simp
  then have "rev ?r = rev (dropWhile is_ws ?r) @ rev (takeWhile is_ws ?r)"
    by (metis rev_append)
  then have 2: "?d = trim s @ rev (takeWhile is_ws ?r)"
    by (simp add: trim_def)
  have b1: "blank (takeWhile is_ws s)"
    by (simp add: blank_def list_all_iff) (meson set_takeWhileD)
  have b2: "blank (rev (takeWhile is_ws ?r))"
    by (simp add: blank_def list_all_iff) (meson set_takeWhileD)
  from 1 2 have "s = takeWhile is_ws s @ trim s @ rev (takeWhile is_ws ?r)" by metis
  with b1 b2 show ?thesis by blast
qed

lemma spaced_trim:
  assumes "spaced ts s"
  shows "spaced (ts @ [trim p]) (s @ p)"
proof -
  from trim_decomposition [of p] obtain w1 w2 where
    w: "blank w1" "blank w2" "p = w1 @ trim p @ w2" by blast
  from spaced_snoc [OF spaced_absorb [OF assms w(1)] w(2), of "trim p"]
  have "spaced (ts @ [trim p]) (s @ (w1 @ trim p @ w2))" by simp
  with w(3) show ?thesis by simp
qed

lemma spaced_parts:
  "spaced ts s \<Longrightarrow> spaced (ts @ map trim ps) (s @ concat ps)"
proof (induction ps arbitrary: ts s)
  case Nil
  then show ?case by simp
next
  case (Cons p ps)
  from Cons.IH [OF spaced_trim [OF Cons.prems, of p]] show ?case by simp
qed

lemma trim_empty_blank: "trim s = [] \<Longrightarrow> blank s"
  using trim_decomposition [of s] by (auto simp: blank_append)

lemma chunked_push: "chunked st ls \<Longrightarrow> chunked (push st) ls"
proof (cases "buf st = []")
  case True
  assume "chunked st ls"
  with True show ?thesis by (simp add: push_def)
next
  case False
  assume c: "chunked st ls"
  then obtain e where e: "spaced (map md_text (chunks st)) e" "e @ join [LF] (buf st) = join [LF] ls"
    unfolding chunked_def by blast
  show ?thesis
  proof (cases "trim (join [LF] (buf st)) = []")
    case True
    from spaced_absorb [OF e(1) trim_empty_blank [OF True]] e(2)
    have "spaced (map md_text (chunks st)) (join [LF] ls)" by simp
    with True False show ?thesis by (simp add: chunked_def push_def)
  next
    case nonempty: False
    from spaced_trim [OF e(1), of "join [LF] (buf st)"] e(2)
    have "spaced (map md_text (chunks st) @ [trim (join [LF] (buf st))]) (join [LF] ls)" by simp
    with nonempty False show ?thesis by (simp add: chunked_def push_def Let_def)
  qed
qed

lemma LF_blank: "blank [LF]"
  by (simp add: blank_def is_ws_LF)

lemma chunked_add_line:
  assumes "chunked st ls"
  shows "chunked (st\<lparr>buf := buf st @ [line]\<rparr>) (ls @ [line])"
proof -
  from assms obtain e where e: "spaced (map md_text (chunks st)) e"
    "e @ join [LF] (buf st) = join [LF] ls" and b: "buf st = [] \<or> ls \<noteq> []"
    unfolding chunked_def by blast
  have "\<exists>e'. spaced (map md_text (chunks st)) e' \<and>
             e' @ join [LF] (buf st @ [line]) = join [LF] (ls @ [line])"
  proof (cases "ls = []")
    case True
    with b e show ?thesis by auto
  next
    case ls: False
    show ?thesis
    proof (cases "buf st = []")
      case True
      with e ls have "(e @ [LF]) @ join [LF] (buf st @ [line]) = join [LF] (ls @ [line])"
        by (simp add: join_snoc)
      with spaced_absorb [OF e(1) LF_blank] show ?thesis by blast
    next
      case False
      with e ls have "e @ join [LF] (buf st @ [line]) = join [LF] (ls @ [line])"
        by (simp add: join_snoc)
      with e(1) show ?thesis by blast
    qed
  qed
  then show ?thesis by (simp add: chunked_def)
qed

lemma chunked_section: "chunked (st\<lparr>currentSection := x\<rparr>) ls = chunked st ls"
  by (simp add: chunked_def)

lemma split_line_chunked:
  assumes "0 < maxLen" "chunked st ls"
  shows "\<exists>st'. split_line maxLen overlap line st = Some st' \<and> chunked st' (ls @ [line])"
proof -
  define st1 where "st1 = (case heading_match line of
                   Some h1 \<Rightarrow> (push st)\<lparr>currentSection := Some (trim h1)\<rparr>
                 | None \<Rightarrow> st)"
  define st2 where "st2 = st1\<lparr>buf := buf st1 @ [line]\<rparr>"
  have sl: "split_line maxLen overlap line st =
     (if length (join [LF] (buf st2)) > maxLen + overlap
      then (case parts_loop (join [LF] (buf st2)) maxLen 0 [] of
              None \<Rightarrow> None
            | Some parts \<Rightarrow>
                Some (st2\<lparr>chunks := chunks st2 @
                             map (\<lambda>p. \<lparr>md_text = trim p, md_section = currentSection st2\<rparr>) parts,
                           buf := []\<rparr>))
      else Some st2)"
    by (simp only: split_line_def Let_def st2_def st1_def)
  have c1: "chunked st1 ls"
    using assms(2) chunked_push [of st ls]
    by (simp add: st1_def chunked_section split: option.splits)
  have c2: "chunked st2 (ls @ [line])"
    unfolding st2_def by (rule chunked_add_line [OF c1])
  show ?thesis
  proof (cases "length (join [LF] (buf st2)) > maxLen + overlap")
    case False
    then show ?thesis using c2 by (simp add: sl)
  next
    case True
    from parts_loop_total [OF assms(1), of "join [LF] (buf st2)" 0 "[]"]
    obtain ps where ps: "parts_loop (join [LF] (buf st2)) maxLen 0 [] = Some ps"
      "concat ps = join [LF] (buf st2)" by auto
    from c2 obtain e where e: "spaced (map md_text (chunks st2)) e"
      "e @ join [LF] (buf st2) = join [LF] (ls @ [line])"
      unfolding chunked_def by blast
    from spaced_parts [OF e(1), of ps] ps(2) e(2)
    have "spaced (map md_text (chunks st2) @ map trim ps) (join [LF] (ls @ [line]))" by simp
    then have "chunked (st2\<lparr>chunks := chunks st2 @
                 map (\<lambda>p. \<lparr>md_text = trim p, md_section = currentSection st2\<rparr>) ps,
               buf := []\<rparr>) (ls @ [line])"
      by (simp add: chunked_def comp_def)
    with True ps(1) show ?thesis by (simp add: sl)
  qed
qed

lemma split_loop_chunked:
  assumes "0 < maxLen"
  shows "chunked st ls \<Longrightarrow>
         \<exists>st'. split_loop maxLen overlap lines st = Some st' \<and> chunked st' (ls @ lines)"
proof (induction lines arbitrary: st ls)
  case Nil
  then show ?case by simp
next
  case (Cons line lines)
  from split_line_chunked [OF assms Cons.prems, of overlap line]
  obtain st1 where st1: "split_line maxLen overlap line st = Some st1"
    "chunked st1 (ls @ [line])" by blast
  from Cons.IH [OF st1(2)] obtain st' where
    "split_loop maxLen overlap lines st1 = Some st'" "chunked st' ((ls @ [line]) @ lines)"
    by blast
  with st1(1) show ?case by simp
qed

text \<open>With \<open>maxLen = 0\<close> a forced split does not return.\<close>

lemma parts_loop_Some_positive:
  assumes "parts_loop s maxLen i parts = Some ps"
  shows "i < length s \<longrightarrow> 0 < maxLen"
proof (rule parts_loop.raw_induct
         [where P = "\<lambda>s m i parts ps. i < length s \<longrightarrow> 0 < m", OF _ assms])
  fix f :: "jsstring \<Rightarrow> nat \<Rightarrow> nat \<Rightarrow> jsstring list \<Rightarrow> jsstring list option"
    and s m i parts ps
  assume IH: "\<And>s m i parts ps. f s m i parts = Some ps \<Longrightarrow> i < length s \<longrightarrow> 0 < m"
    and step: "(if i < length s then f s m (i + m) (parts @ [slice s i (i + m)])
                else Some parts) = Some ps"
  show "i < length s \<longrightarrow> 0 < m"
  proof
    assume lt: "i < length s"
    with step have "f s m (i + m) (parts @ [slice s i (i + m)]) = Some ps" by simp
    from IH [OF this] lt show "0 < m" by (cases "m = 0") auto
  qed
qed

lemma parts_loop_zero: "i < length s \<Longrightarrow> parts_loop s 0 i parts = None"
  using parts_loop_Some_positive [of s 0 i parts] by (cases "parts_loop s 0 i parts") auto

lemma splitMarkdown_zero_example: "splitMarkdown (js ''ab'') 0 1 = None"
proof -
  have "parts_loop (js ''ab'') 0 0 [] = None"
    by (rule parts_loop_zero) (simp add: js_def)
  moreover have "split_lines (js ''ab'') = [js ''ab'']"
    by code_simp
  moreover have "heading_match (js ''ab'') = None"
    by code_simp
  moreover have "length (js ''ab'') = 2"
    by (simp add: js_def)
  ultimately show ?thesis
    by (simp add: splitMarkdown_def split_line_def)
qed

text \<open>
  C7, as the code has it.  For every input and every positive \<open>maxLen\<close> (the
  service passes 1200), \<open>splitMarkdown\<close> returns, and the input, with its line
  breaks CR LF written as LF, is the chunk texts in their order with a string of
  white space, possibly empty, before the first text, between two texts and after
  the last: no character inside a chunk text is lost, added or moved.
\<close>

theorem splitMarkdown_reconstructs_input:
  assumes "0 < maxLen"
  shows "\<exists>cs gaps. splitMarkdown md maxLen overlap = Some cs \<and>
           length gaps = Suc (length cs) \<and> list_all (list_all is_ws) gaps \<and>
           weave gaps (map md_text cs) = crlf_to_lf md"
proof -
  let ?st0 = "\<lparr>chunks = [], buf = [], currentSection = None\<rparr>"
  have "spaced [] []"
    unfolding spaced_def by (rule exI [of _ "[[]]"]) (simp add: blank_def)
  then have "chunked ?st0 []" by (simp add: chunked_def)
  from split_loop_chunked [OF assms this, of overlap "split_lines md"]
  obtain st where st: "split_loop maxLen overlap (split_lines md) ?st0 = Some st"
    "chunked st (split_lines md)" by auto
  from chunked_push [OF st(2)]
  have "spaced (map md_text (chunks (push st))) (crlf_to_lf md)"
    by (simp add: chunked_def buf_push join_split_lines)
  then obtain gaps where "length gaps = Suc (length (chunks (push st)))"
    "list_all blank gaps" "weave gaps (map md_text (chunks (push st))) = crlf_to_lf md"
    unfolding spaced_def by auto
  moreover have "list_all blank gaps = list_all (list_all is_ws) gaps"
    by (simp add: blank_def [abs_def])
  ultimately show ?thesis using st(1) by (auto simp: splitMarkdown_def)
qed

lemma crlf_to_lf_id: "CR \<notin> set md \<Longrightarrow> crlf_to_lf md = md"
  by (induction md rule: crlf_to_lf.induct) auto

theorem splitMarkdown_reconstructs_input_witness:
  "0 < (1200::nat) \<and>
   (\<exists>cs gaps. splitMarkdown (js ''## A'' @ [CR, LF] @ js ''b '') 1200 150 = Some cs \<and>
       length gaps = Suc (length cs) \<and> list_all (list_all is_ws) gaps \<and>
       weave gaps (map md_text cs) = js ''## A\<newline>b '')"
proof -
  have "crlf_to_lf (js ''## A'' @ [CR, LF] @ js ''b '') = js ''## A\<newline>b ''"
    by code_simp
  with splitMarkdown_reconstructs_input [of 1200 "js ''## A'' @ [CR, LF] @ js ''b ''" 150]
  show ?thesis by simp
qed

text \<open>
  The input \<open>a\<close> CR LF \<open>b\<close> has no white space at its ends and gives one chunk:
  were only the white space at the chunk boundaries removed, the text of the chunk
  would be the input, and it is \<open>a\<close> LF \<open>b\<close>.
\<close>

theorem splitMarkdown_drops_CR_counterexample:
  "splitMarkdown (js ''a'' @ [CR, LF] @ js ''b'') 1200 150
     = Some [\<lparr>md_text = js ''a\<newline>b'', md_section = None\<rparr>] \<and>
   trim (js ''a'' @ [CR, LF] @ js ''b'') = js ''a'' @ [CR, LF] @ js ''b'' \<and>
   js ''a\<newline>b'' \<noteq> js ''a'' @ [CR, LF] @ js ''b''"
proof -
  have 1: "splitMarkdown (js ''a'' @ [CR, LF] @ js ''b'') 1200 150
     = Some [\<lparr>md_text = js ''a\<newline>b'', md_section = None\<rparr>]"
    by code_simp
  have 2: "trim (js ''a'' @ [CR, LF] @ js ''b'') = js ''a'' @ [CR, LF] @ js ''b''"
    by code_simp
  have 3: "js ''a\<newline>b'' \<noteq> js ''a'' @ [CR, LF] @ js ''b''"
    by (simp add: js_def)
  from 1 2 3 show ?thesis by blast
qed

lemma split_lines_no_LF: "LF \<notin> set s \<Longrightarrow> split_lines s = [s]"
  by (induction s rule: split_lines.induct) auto

lemma trim_padded:
  "\<not> is_ws c \<Longrightarrow> trim (replicate m 0x20 @ c # replicate n 0x20) = [c]"
  by (simp add: trim_def dropWhile_append3 is_ws_def dropWhile_append2)

lemma trim_blank: "trim (replicate n 0x20) = []"
  by (simp add: trim_def is_ws_def)

text \<open>
  C2.  The forced split pushes one chunk per slice, trimmed and unfiltered: with the
  parameters of the service (1200, 150), the line made of \<open>a\<close>, 2400 spaces and \<open>b\<close>
  is cut into three slices, and the middle one, all spaces, is emitted as a chunk
  with the empty text.
\<close>

theorem splitMarkdown_forced_split_emits_empty_chunk:
  "splitMarkdown (js ''a'' @ replicate 2400 0x20 @ js ''b'') 1200 150 =
     Some [\<lparr>md_text = js ''a'', md_section = None\<rparr>,
           \<lparr>md_text = [], md_section = None\<rparr>,
           \<lparr>md_text = js ''b'', md_section = None\<rparr>]"
proof -
  let ?md = "(0x61 :: jschar) # replicate 2400 0x20 @ [0x62]"
  have md: "js ''a'' @ replicate 2400 0x20 @ js ''b'' = ?md"
    by (simp add: js_def)
  have lines: "split_lines ?md = [?md]"
    by (rule split_lines_no_LF) (simp add: LF_def)
  have h: "heading_match ?md = None"
    by (simp add: heading_match_def HASH_def)
  have p1: "slice ?md 0 1200 = 0x61 # replicate 1199 0x20"
    by (simp add: slice_def)
  have p2: "slice ?md 1200 2400 = replicate 1200 0x20"
    by (simp add: slice_def)
  have p3: "slice ?md 2400 3600 = [0x20, 0x62]"
    by (simp add: slice_def)
  have parts: "parts_loop ?md 1200 0 [] =
                 Some [slice ?md 0 1200, slice ?md 1200 2400, slice ?md 2400 3600]"
    by (subst parts_loop.simps, simp, subst parts_loop.simps, simp,
        subst parts_loop.simps, simp, subst parts_loop.simps, simp)
  have t1: "trim (0x61 # replicate 1199 0x20) = [0x61]"
    using trim_padded [of "0x61" 0 1199] by (simp add: is_ws_def is_line_terminator_def)
  have t3: "trim [0x20, 0x62] = [0x62 :: jschar]"
    by (simp add: trim_def is_ws_def is_line_terminator_def)
  show ?thesis
    unfolding md
    by (simp add: splitMarkdown_def lines split_line_def h parts p1 p2 p3 t1 t3 trim_blank
                  push_def js_def)
qed

section \<open>Properties of the stream decoder\<close>

lemma search_empty: "items store = [] \<Longrightarrow> search fp store q k = []"
  by (simp add: search_def)

lemma embed_example:
  "embed (example_env lines) model [t] w = (Inr [[Num 1]], w)"
  by (simp add: embed_def example_env_def)

lemma retrieval_of_Nil: "retrieval_of [] = \<lparr>contextBlock = [], sources = []\<rparr>"
  by (simp add: retrieval_of_def enumerate_eq_zip)

lemma streamChat_example:
  "streamChat (example_env lines) example_service message history None None w =
     Some (catch_gen (decode example_JSON_parse None lines), example_service, w)"
  by (simp add: streamChat_def buildPromptWithRetrieval_def retrieveContext_def embed_example
        search_empty retrieval_of_Nil, simp add: example_service_def example_env_def)

lemma raised_decode: "raised (decode parse None lines) = None"
  by (induction lines) (auto split: option.splits sum.splits)

lemma raised_catch_gen: "raised (catch_gen g) = map_option rethrow (raised g)"
  by (induction g) auto



text \<open>
  C1.  A line whose record carries an \<open>error\<close> field makes the inner \<open>try\<close> block
  throw, and the empty \<open>catch\<close> of that same block takes the error: for the single
  line \<open>{"error":"boom"}\<close> the generator of \<open>streamChat\<close> returns normally,
  having raised nothing; a later line is still read and its fragment yielded; and on
  no stream that ends normally does the decoding loop raise anything.
\<close>

theorem streamChat_swallows_backend_error:
  \<open>streamChat (example_env [js ''{"error":"boom"}'']) example_service (js ''hi'') [] None None 0
     = Some (Return, example_service, 0) \<and>
   streamChat (example_env [js ''{"error":"boom"}'', js ''{"response":"late"}''])
       example_service (js ''hi'') [] None None 0
     = Some (Yield (js ''late'') Return, example_service, 0) \<and>
   raised (catch_gen (decode parse None lines)) = None\<close>
proof -
  have a: \<open>catch_gen (decode example_JSON_parse None [js ''{"error":"boom"}'']) = Return\<close>
    by code_simp
  have b: \<open>catch_gen (decode example_JSON_parse None
              [js ''{"error":"boom"}'', js ''{"response":"late"}'']) = Yield (js ''late'') Return\<close>
    by code_simp
  show ?thesis
    by (simp only: streamChat_example a b raised_catch_gen raised_decode) simp
qed




section \<open>\<open>chat\<close> against \<open>streamChat\<close>\<close>

lemma splitMarkdown_returns:
  assumes "0 < maxLen"
  shows "\<exists>cs. splitMarkdown md maxLen overlap = Some cs"
proof -
  have "spaced [] []"
    unfolding spaced_def by (rule exI [of _ "[[]]"]) (simp add: blank_def)
  then have "chunked \<lparr>chunks = [], buf = [], currentSection = None\<rparr> []"
    by (simp add: chunked_def)
  from split_loop_chunked [OF assms this, of overlap "split_lines md"]
  show ?thesis by (auto simp: splitMarkdown_def)
qed

lemma index_docs_returns: "\<exists>r. index_docs env docs acc w = Some r"
proof (induction docs arbitrary: acc w)
  case Nil
  then show ?case by simp
next
  case (Cons doc docs)
  obtain cs where cs: "splitMarkdown (slice (doc_content doc) 0 MAX_CHARS_PER_DOC) 1200 150 = Some cs"
    using splitMarkdown_returns [of 1200] by auto
  obtain acc' w' where "index_chunks env doc (slice cs 0 MAX_CHUNKS_PER_DOC) acc w = (acc', w')"
    by (cases "index_chunks env doc (slice cs 0 MAX_CHUNKS_PER_DOC) acc w")
  with cs Cons.IH [of acc' w'] show ?case by simp
qed

lemma indexDocuments_returns: "\<exists>r. indexDocuments env svc docs w = Some r"
proof -
  obtain r where "index_docs env (slice docs 0 MAX_DOCS) ([], []) w = Some r"
    using index_docs_returns [of env "slice docs 0 MAX_DOCS" "([], [])" w] by auto
  then show ?thesis
    by (cases r) (auto simp: indexDocuments_def split: prod.splits sum.splits)
qed

lemma buildPromptWithRetrieval_returns:
  "\<exists>r. buildPromptWithRetrieval env svc message history systemPrompt documents w = Some r"
proof -
  have "\<exists>r. (case documents of
              Some ds \<Rightarrow> if ds \<noteq> [] then indexDocuments env svc ds w else Some (Inr svc, w)
            | None \<Rightarrow> Some (Inr svc, w)) = Some r"
    using indexDocuments_returns by (cases documents) auto
  then obtain r where r: "(case documents of
              Some ds \<Rightarrow> if ds \<noteq> [] then indexDocuments env svc ds w else Some (Inr svc, w)
            | None \<Rightarrow> Some (Inr svc, w)) = Some r" by blast
  show ?thesis
    unfolding buildPromptWithRetrieval_def r
    by (auto split: prod.splits sum.splits)
qed

lemma streamChat_returns:
  "\<exists>r. streamChat env svc message history systemPrompt documents w = Some r"
proof -
  obtain r where "buildPromptWithRetrieval env svc message history systemPrompt documents w = Some r"
    using buildPromptWithRetrieval_returns [of env svc message history systemPrompt documents w]
    by auto
  then show ?thesis
    by (auto simp: streamChat_def split: prod.splits sum.splits axios.splits)
qed

lemma chat_loop_eq:
  "chat_loop acc g =
     (case raised g of None \<Rightarrow> Inr (acc @ concat (fragments g)) | Some e \<Rightarrow> Inl e)"
  by (induction g arbitrary: acc) (auto split: option.splits)

text \<open>
  C9.  For all arguments, every environment and every state, \<open>streamChat\<close> gives a
  generator, and \<open>chat\<close> on the same arguments raises the error the generator ends
  with, if it ends with one, and otherwise returns the concatenation of the
  fragments in the order they were yielded; the service and the world are left as
  \<open>streamChat\<close> leaves them.
\<close>

theorem chat_concatenates_streamChat:
  "\<exists>g svc1 w1.
     streamChat env svc message history systemPrompt documents w = Some (g, svc1, w1) \<and>
     chat env svc message history systemPrompt documents w =
       Some ((case raised g of None \<Rightarrow> Inr (concat (fragments g)) | Some e \<Rightarrow> Inl e), svc1, w1)"
proof -
  obtain g svc1 w1 where
    "streamChat env svc message history systemPrompt documents w = Some (g, svc1, w1)"
    using streamChat_returns [of env svc message history systemPrompt documents w] by auto
  then show ?thesis by (simp add: chat_def chat_loop_eq split: option.splits)
qed

section \<open>Properties of the vector index\<close>

lemma difference_sign_rank:
  "a \<noteq> NaN \<Longrightarrow> b \<noteq> NaN \<Longrightarrow> (difference_sign b a = Plus) = (\<not> rank a \<le> rank b)"
  by (cases a; cases b) auto

lemma score_ge_rank:
  "a \<noteq> NaN \<Longrightarrow> b \<noteq> NaN \<Longrightarrow> score_ge a b = (rank a \<le> rank b)"
  by (cases a; cases b) auto

lemma sort_insert_insort_key:
  assumes "snd x \<noteq> NaN" "\<forall>p \<in> set ys. snd p \<noteq> NaN"
  shows "sort_insert (\<lambda>a b. difference_sign (snd b) (snd a)) x ys
           = insort_key (\<lambda>p. rank (snd p)) x ys"
  using assms
proof (induction ys)
  case Nil
  then show ?case by simp
next
  case (Cons y ys)
  then have "(difference_sign (snd y) (snd x) = Plus) = (\<not> rank (snd x) \<le> rank (snd y))"
    by (simp add: difference_sign_rank)
  with Cons show ?case by simp
qed

lemma js_sort_sort_key:
  assumes "\<forall>p \<in> set ps. snd p \<noteq> NaN"
  shows "js_sort (\<lambda>a b. difference_sign (snd b) (snd a)) ps = sort_key (\<lambda>p. rank (snd p)) ps"
  using assms
proof (induction ps)
  case Nil
  then show ?case by simp
next
  case (Cons p ps)
  then have "\<forall>p \<in> set (sort_key (\<lambda>p. rank (snd p)) ps). snd p \<noteq> NaN"
    by simp
  with Cons show ?case
    by (simp add: sort_insert_insort_key)
qed

lemma sorted_map_const: "(\<And>x. x \<in> set xs \<Longrightarrow> f x = k) \<Longrightarrow> sorted (map f xs)"
  by (induction xs) auto

lemma sort_key_filter_same:
  "filter (\<lambda>p. snd p = s) (sort_key (\<lambda>p. rank (snd p)) ps) = filter (\<lambda>p. snd p = s) ps"
proof -
  have "sorted (map (\<lambda>p. rank (snd p)) (filter (\<lambda>p. snd p = s) ps))"
    by (rule sorted_map_const [where k = "rank s"]) simp
  then show ?thesis
    by (simp add: filter_sort sort_key_id_if_sorted)
qed

text \<open>
  Whatever the arithmetic: a stored vector shorter than the query has the score
  \<open>NaN\<close>, and a store whose middle item has the score \<open>NaN\<close> comes back in the
  order of insertion.
\<close>

lemma difference_sign_NaN: "difference_sign x NaN = Zero"
  by (cases x) simp_all

lemma cosine_shorter_vector: "cosine fp [Num 1] [] = NaN"
  by (simp add: cosine_def cosine_step_def num_at_def nadd_def nmul_def ndiv_def)

lemma search_NaN_in_the_middle:
  "search fp \<lparr>dim = Some 1, items = [example_chunk (js ''x'') [Num 0], example_chunk (js ''n'') [],
                                     example_chunk (js ''y'') [Num 1]]\<rparr> [Num 1] 3
     = [example_chunk (js ''x'') [Num 0], example_chunk (js ''n'') [],
        example_chunk (js ''y'') [Num 1]]"
  by (simp add: search_def example_chunk_def cosine_shorter_vector difference_sign_NaN)

lemma cosine_1_0: "cosine exact_arith [Num 1] [Num 0] = Num 0"
  by (simp add: cosine_def cosine_step_def num_at_def nadd_def nmul_def ndiv_def nsqrt_def
                exact_arith_def)

lemma cosine_1_1: "cosine exact_arith [Num 1] [Num 1] = Num (1 / (1 + 1 / 10 ^ 12))"
  by (simp add: cosine_def cosine_step_def num_at_def nadd_def nmul_def ndiv_def nsqrt_def
                exact_arith_def)

text \<open>
  C4, as the code has it.  When no stored vector gives the score \<open>NaN\<close> against the
  query, \<open>search\<close> returns \<open>min k size\<close> items, from the greater score to the
  smaller, and they are the first \<open>k\<close> of a rearrangement of the whole store that
  runs from the greater score to the smaller and keeps, for every score, the items
  of that score in the order of their insertion.
\<close>

theorem search_sorted_stable:
  assumes "\<forall>it \<in> set (items store). cosine fp q (ec_vector it) \<noteq> NaN"
  shows "length (search fp store q k) = min k (count store) \<and>
         sorted_wrt (\<lambda>a b. score_ge (cosine fp q (ec_vector a)) (cosine fp q (ec_vector b)))
           (search fp store q k) \<and>
         (\<exists>full. search fp store q k = take k full \<and>
            sorted_wrt (\<lambda>a b. score_ge (cosine fp q (ec_vector a)) (cosine fp q (ec_vector b)))
              full \<and>
            mset full = mset (items store) \<and>
            (\<forall>s. filter (\<lambda>it. cosine fp q (ec_vector it) = s) full
                 = filter (\<lambda>it. cosine fp q (ec_vector it) = s) (items store)))"
proof -
  define c where "c = (\<lambda>it :: EmbedChunk. cosine fp q (ec_vector it))"
  define scores where "scores = map (\<lambda>it. (it, c it)) (items store)"
  define f where "f = (\<lambda>p :: EmbedChunk \<times> number. rank (snd p))"
  define S where "S = sort_key f scores"
  have fst_scores: "map fst scores = items store"
    by (simp add: scores_def comp_def)
  have snd_scores: "\<And>p. p \<in> set scores \<Longrightarrow> snd p = c (fst p)"
    by (auto simp: scores_def)
  have no_nan: "\<forall>p \<in> set scores. snd p \<noteq> NaN"
    using assms by (auto simp: scores_def c_def)
  have set_S: "set S = set scores"
    by (simp add: S_def)
  have search_eq: "search fp store q k = take k (map fst S)"
    using js_sort_sort_key [OF no_nan]
    by (simp add: search_def scores_def c_def S_def f_def take_map)
  have len: "length (search fp store q k) = min k (count store)"
    by (simp add: search_eq S_def scores_def count_def)
  have "sorted (map f S)"
    by (simp add: S_def)
  then have "sorted_wrt (\<lambda>a b. f a \<le> f b) S"
    by (simp add: sorted_map)
  then have "sorted_wrt (\<lambda>a b. score_ge (c (fst a)) (c (fst b))) S"
  proof (rule sorted_wrt_mono_rel [rotated])
    fix a b assume a: "a \<in> set S" and b: "b \<in> set S" and le: "f a \<le> f b"
    from a b no_nan set_S have "snd a \<noteq> NaN" "snd b \<noteq> NaN" by auto
    with le have "score_ge (snd a) (snd b)" by (simp add: f_def score_ge_rank)
    with a b set_S snd_scores show "score_ge (c (fst a)) (c (fst b))" by auto
  qed
  then have sorted_full: "sorted_wrt (\<lambda>a b. score_ge (c a) (c b)) (map fst S)"
    by (simp add: sorted_wrt_map)
  then have sorted: "sorted_wrt (\<lambda>a b. score_ge (c a) (c b)) (search fp store q k)"
    by (simp add: search_eq sorted_wrt_take)
  have "mset (map fst S) = mset (map fst scores)"
    by (simp add: S_def)
  then have perm: "mset (map fst S) = mset (items store)"
    by (simp only: fst_scores)
  have stable: "filter (\<lambda>it. c it = s) (map fst S) = filter (\<lambda>it. c it = s) (items store)" for s
  proof -
    have "filter (\<lambda>it. c it = s) (map fst S) = map fst (filter (\<lambda>p. c (fst p) = s) S)"
      by (simp add: filter_map comp_def)
    also have "filter (\<lambda>p. c (fst p) = s) S = filter (\<lambda>p. snd p = s) S"
      by (rule filter_cong) (auto simp: set_S snd_scores)
    also have "\<dots> = filter (\<lambda>p. snd p = s) scores"
      by (simp add: S_def f_def sort_key_filter_same)
    also have "\<dots> = filter (\<lambda>p. c (fst p) = s) scores"
      by (rule filter_cong) (auto simp: snd_scores)
    also have "map fst \<dots> = filter (\<lambda>it. c it = s) (map fst scores)"
      by (simp add: filter_map comp_def)
    finally show ?thesis by (simp only: fst_scores)
  qed
  from len sorted sorted_full perm stable search_eq show ?thesis
    unfolding c_def by blast
qed

theorem search_sorted_stable_witness:
  "cosine exact_arith [Num 1] (ec_vector (example_chunk (js ''x'') [Num 0])) \<noteq> NaN \<and>
   cosine exact_arith [Num 1] (ec_vector (example_chunk (js ''y'') [Num 1])) \<noteq> NaN \<and>
   length (search exact_arith \<lparr>dim = Some 1, items = [example_chunk (js ''x'') [Num 0],
                                          example_chunk (js ''y'') [Num 1]]\<rparr> [Num 1] 1) = 1 \<and>
   sorted_wrt (\<lambda>a b. score_ge (cosine exact_arith [Num 1] (ec_vector a))
                               (cosine exact_arith [Num 1] (ec_vector b)))
     (search exact_arith \<lparr>dim = Some 1, items = [example_chunk (js ''x'') [Num 0],
                                     example_chunk (js ''y'') [Num 1]]\<rparr> [Num 1] 2)"
  using search_sorted_stable
          [of "\<lparr>dim = Some 1, items = [example_chunk (js ''x'') [Num 0],
                                       example_chunk (js ''y'') [Num 1]]\<rparr>"
              exact_arith "[Num 1]" 1]
        search_sorted_stable
          [of "\<lparr>dim = Some 1, items = [example_chunk (js ''x'') [Num 0],
                                       example_chunk (js ''y'') [Num 1]]\<rparr>"
              exact_arith "[Num 1]" 2]
  by (simp add: example_chunk_def cosine_1_0 cosine_1_1 count_def)

text \<open>
  A store whose second vector is shorter than the query: its score is \<open>NaN\<close>, it
  compares as equal to both neighbours, and the item of score \<open>0\<close> stays before the
  item of score near \<open>1\<close>.
\<close>

theorem search_mixed_dimension_counterexample:
  "\<not> sorted_wrt (\<lambda>a b. score_ge (cosine exact_arith [Num 1] (ec_vector a))
                                 (cosine exact_arith [Num 1] (ec_vector b)))
       (search exact_arith \<lparr>dim = Some 1, items = [example_chunk (js ''x'') [Num 0],
                   example_chunk (js ''n'') [], example_chunk (js ''y'') [Num 1]]\<rparr> [Num 1] 3) \<and>
   search exact_arith \<lparr>dim = Some 1, items = [example_chunk (js ''x'') [Num 0],
                   example_chunk (js ''n'') [], example_chunk (js ''y'') [Num 1]]\<rparr> [Num 1] 3
     = [example_chunk (js ''x'') [Num 0], example_chunk (js ''n'') [],
        example_chunk (js ''y'') [Num 1]] \<and>
   cosine exact_arith [Num 1] (ec_vector (example_chunk (js ''x'') [Num 0])) = Num 0 \<and>
   cosine exact_arith [Num 1] (ec_vector (example_chunk (js ''n'') [])) = NaN \<and>
   cosine exact_arith [Num 1] (ec_vector (example_chunk (js ''y'') [Num 1]))
     = Num (1 / (1 + 1 / 10 ^ 12)) \<and>
   \<not> score_ge (Num 0) (Num (1 / (1 + 1 / 10 ^ 12)))"
  unfolding search_NaN_in_the_middle
  by (simp add: example_chunk_def cosine_1_0 cosine_1_1 cosine_shorter_vector)

section \<open>Properties of the embedding client\<close>

lemma isArray_truthy: "isArray v \<Longrightarrow> truthy v"
  by (cases v) auto

lemma embed_loop_replies:
  "fst (embed_loop env model texts vectors w) =
     (if list_all carries_array (replies env model texts w)
      then Inr (vectors @ map vector_of (replies env model texts w))
      else (case last (replies env model texts w) of
              Failure e \<Rightarrow> Inl (Axios e)
            | Response d \<Rightarrow> Inl embedding_invalid))"
proof (induction texts arbitrary: vectors w)
  case Nil
  then show ?case by simp
next
  case (Cons t ts)
  obtain r w' where r: "post_embeddings env model t w = (r, w')"
    by (cases "post_embeddings env model t w")
  show ?case
  proof (cases r)
    case (Failure e)
    with r show ?thesis by simp
  next
    case (Response d)
    show ?thesis
    proof (cases "isArray (embedding_of d)")
      case True
      with r Response Cons.IH [of "vectors @ [as_number_array (embedding_of d)]" w']
      show ?thesis by (simp add: isArray_truthy)
    next
      case False
      with r Response show ?thesis by simp
    qed
  qed
qed

lemma replies_length:
  "list_all carries_array (replies env model texts w) \<Longrightarrow>
   length (replies env model texts w) = length texts"
proof (induction texts arbitrary: w)
  case Nil
  then show ?case by simp
next
  case (Cons t ts)
  then show ?case by (auto split: prod.splits if_splits)
qed

lemma replies_last:
  "\<not> list_all carries_array (replies env model texts w) \<Longrightarrow>
   \<not> carries_array (last (replies env model texts w))"
proof (induction texts arbitrary: w)
  case Nil
  then show ?case by simp
next
  case (Cons t ts)
  then show ?case by (auto split: prod.splits if_splits)
qed

lemma embed_length:
  "embed env model texts w = (Inr vs, w') \<Longrightarrow> length vs = length texts"
  using embed_loop_replies [of env model texts "[]" w] replies_length [of env model texts w]
  by (auto simp: embed_def embedding_invalid_def split: if_splits axios.splits)

text \<open>
  C6, as the code has it.  \<open>embed\<close> asks the backend text by text and stops at the
  first reply that carries no array: it raises the error \<open>Embedding invalide depuis
  Ollama\<close> exactly when that reply is a response (its \<open>embedding\<close> is absent, falsy
  or not an array), and the error of the request when the request failed.  The
  elements of an array are not looked at.  When every reply carries an array, there
  is one reply per text and the result is the list of their vectors, in the order of
  the texts.
\<close>

theorem embed_raises_iff_not_array:
  "fst (embed env model texts w) =
     (if list_all carries_array (replies env model texts w)
      then Inr (map vector_of (replies env model texts w))
      else (case last (replies env model texts w) of
              Failure e \<Rightarrow> Inl (Axios e)
            | Response d \<Rightarrow> Inl embedding_invalid)) \<and>
   (fst (embed env model texts w) = Inl embedding_invalid \<longleftrightarrow>
      (\<exists>d. replies env model texts w \<noteq> [] \<and> last (replies env model texts w) = Response d \<and>
           \<not> isArray (embedding_of d))) \<and>
   (list_all carries_array (replies env model texts w) \<longrightarrow>
      length (replies env model texts w) = length texts)"
proof -
  let ?rs = "replies env model texts w"
  have eq: "fst (embed env model texts w) =
     (if list_all carries_array ?rs then Inr (map vector_of ?rs)
      else (case last ?rs of Failure e \<Rightarrow> Inl (Axios e) | Response d \<Rightarrow> Inl embedding_invalid))"
    using embed_loop_replies [of env model texts "[]" w] by (simp add: embed_def)
  have iff: "fst (embed env model texts w) = Inl embedding_invalid \<longleftrightarrow>
      (\<exists>d. ?rs \<noteq> [] \<and> last ?rs = Response d \<and> \<not> isArray (embedding_of d))"
  proof (cases "list_all carries_array ?rs")
    case True
    then have "?rs = [] \<or> carries_array (last ?rs)"
      by (cases "?rs = []") (auto simp: list_all_iff)
    with True eq show ?thesis by auto
  next
    case False
    then have ne: "?rs \<noteq> []" by auto
    from replies_last [OF False] have "\<not> carries_array (last ?rs)" .
    with False eq ne show ?thesis
      by (cases "last ?rs") (auto simp: embedding_invalid_def)
  qed
  from eq iff replies_length [of env model texts w] show ?thesis by blast
qed

theorem embed_raises_iff_not_array_witness:
  "list_all carries_array (replies (example_env []) (js ''m'') [js ''a'', js ''b''] 0) \<and>
   length (replies (example_env []) (js ''m'') [js ''a'', js ''b''] 0) = length [js ''a'', js ''b''] \<and>
   fst (embed (example_env []) (js ''m'') [js ''a'', js ''b''] 0) = Inr [[Num 1], [Num 1]]"
  using embed_raises_iff_not_array [of "example_env []" "js ''m''" "[js ''a'', js ''b'']" 0]
  by (simp add: example_env_def)

text \<open>An array of strings is not a numeric sequence, and \<open>embed\<close> returns it.\<close>

theorem embed_accepts_non_numeric_array_counterexample:
  "\<not> numeric_sequence (JArray [JString (js ''x'')]) \<and>
   embed ((example_env [])\<lparr>post_embeddings :=
             (\<lambda>model prompt w. (Response (JObject [(js ''embedding'', JArray [JString (js ''x'')])]), w))\<rparr>)
         (js ''m'') [js ''a''] 0
     = (Inr [[NaN]], 0)"
  by (simp add: embed_def example_env_def)

section \<open>Properties of the retrieval and of the prompt\<close>

text \<open>
  C10, as the code has it.  On an empty index \<open>search\<close> returns the empty sequence
  for every query vector and every \<open>k\<close>; \<open>retrieveContext\<close> first embeds the query
  and raises what that raises, and when the embedding succeeds it returns the empty
  context block and no sources.
\<close>

theorem retrieveContext_empty_index:
  assumes "items (vectorStore svc) = []"
  shows "search fp (vectorStore svc) queryVec k = [] \<and>
         retrieveContext env svc query k' w =
           (case embed env (embedModel svc) [query] w of
              (Inl e, w') \<Rightarrow> (Inl e, w')
            | (Inr vectors, w') \<Rightarrow> (Inr \<lparr>contextBlock = [], sources = []\<rparr>, w'))"
  using assms
  by (auto simp: retrieveContext_def search_empty retrieval_of_Nil
           split: prod.splits sum.splits list.splits)

theorem retrieveContext_empty_index_witness:
  "items (vectorStore example_service) = [] \<and>
   search exact_arith (vectorStore example_service) [Num 1] 6 = [] \<and>
   retrieveContext (example_env []) example_service (js ''q'') 6 0
     = (Inr \<lparr>contextBlock = [], sources = []\<rparr>, 0)"
  using retrieveContext_empty_index
          [where svc = example_service and fp = exact_arith and queryVec = "[Num 1]" and k = 6
             and env = "example_env []" and query = "js ''q''" and k' = 6 and w = 0]
  by (simp add: example_service_def embed_example)

text \<open>The index is empty, the backend answers without \<open>embedding\<close>: the call raises.\<close>

theorem retrieveContext_empty_index_counterexample:
  "items (vectorStore example_service) = [] \<and>
   retrieveContext
     ((example_env [])\<lparr>post_embeddings := (\<lambda>model prompt w. (Response (JObject []), w))\<rparr>)
     example_service (js ''q'') 6 0
     = (Inl embedding_invalid, 0)"
  by (simp add: retrieveContext_def embed_def example_env_def example_service_def)














section \<open>Properties of the ingestion\<close>

lemma index_chunks_acc:
  "\<exists>ms w'. index_chunks env doc chs (texts, metas) w
              = ((texts @ map md_text chs, metas @ ms), w') \<and>
           map ec_text ms = map md_text chs"
proof (induction chs arbitrary: texts metas w)
  case Nil
  then show ?case by simp
next
  case (Cons ch chs)
  obtain uuid w1 where u: "randomUUID env w = (uuid, w1)"
    by (cases "randomUUID env w")
  let ?m = "\<lparr>ec_id = uuid, ec_text = md_text ch,
             ec_meta = \<lparr>docId = doc_id doc, filename = doc_name doc,
                        meta_section = md_section ch\<rparr>\<rparr>"
  from Cons.IH [of "texts @ [md_text ch]" "metas @ [?m]" w1]
  obtain ms w' where
    "index_chunks env doc chs (texts @ [md_text ch], metas @ [?m]) w1
       = (((texts @ [md_text ch]) @ map md_text chs, (metas @ [?m]) @ ms), w')"
    "map ec_text ms = map md_text chs" by blast
  with u have "index_chunks env doc (ch # chs) (texts, metas) w
       = ((texts @ map md_text (ch # chs), metas @ (?m # ms)), w') \<and>
     map ec_text (?m # ms) = map md_text (ch # chs)"
    by simp
  then show ?case by blast
qed

lemma index_docs_acc:
  "\<exists>css ms w'.
     index_docs env docs (texts, metas) w
       = Some ((texts @ concat (map (\<lambda>cs. map md_text (take 80 cs)) css), metas @ ms), w') \<and>
     list_all2 (\<lambda>d cs. splitMarkdown (take 200000 (doc_content d)) 1200 150 = Some cs) docs css \<and>
     map ec_text ms = concat (map (\<lambda>cs. map md_text (take 80 cs)) css)"
proof (induction docs arbitrary: texts metas w)
  case Nil
  then show ?case by simp
next
  case (Cons doc docs)
  obtain cs where cs: "splitMarkdown (take 200000 (doc_content doc)) 1200 150 = Some cs"
    using splitMarkdown_returns [of 1200] by auto
  from index_chunks_acc [of env doc "take 80 cs" texts metas w]
  obtain m1 w1 where c1:
    "index_chunks env doc (take 80 cs) (texts, metas) w
       = ((texts @ map md_text (take 80 cs), metas @ m1), w1)"
    "map ec_text m1 = map md_text (take 80 cs)" by blast
  from Cons.IH [of "texts @ map md_text (take 80 cs)" "metas @ m1" w1]
  obtain css ms w' where r:
    "index_docs env docs (texts @ map md_text (take 80 cs), metas @ m1) w1
       = Some (((texts @ map md_text (take 80 cs)) @
                  concat (map (\<lambda>cs. map md_text (take 80 cs)) css), (metas @ m1) @ ms), w')"
    "list_all2 (\<lambda>d cs. splitMarkdown (take 200000 (doc_content d)) 1200 150 = Some cs) docs css"
    "map ec_text ms = concat (map (\<lambda>cs. map md_text (take 80 cs)) css)" by blast
  have "index_docs env (doc # docs) (texts, metas) w
          = Some ((texts @ concat (map (\<lambda>cs. map md_text (take 80 cs)) (cs # css)),
                   metas @ (m1 @ ms)), w')"
    using cs c1(1) r(1)
    by (simp add: slice_def MAX_CHARS_PER_DOC_def MAX_CHUNKS_PER_DOC_def)
  moreover have "list_all2 (\<lambda>d cs. splitMarkdown (take 200000 (doc_content d)) 1200 150 = Some cs)
                   (doc # docs) (cs # css)"
    using cs r(2) by simp
  moreover have "map ec_text (m1 @ ms) = concat (map (\<lambda>cs. map md_text (take 80 cs)) (cs # css))"
    using c1(2) r(3) by simp
  ultimately show ?case by blast
qed

lemma map_zip_fst:
  "length xs = length ys \<Longrightarrow> map (\<lambda>(c, v). g c) (zip xs ys) = map g xs"
  by (induction xs ys rule: list_induct2) auto

lemma indexDocuments_items:
  assumes "indexDocuments env svc docs w = Some (Inr svc', w')"
  shows "\<exists>css new.
           list_all2 (\<lambda>d cs. splitMarkdown (take 200000 (doc_content d)) 1200 150 = Some cs)
             (take 20 docs) css \<and>
           items (vectorStore svc') = items (vectorStore svc) @ new \<and>
           map ec_text new = concat (map (\<lambda>cs. map md_text (take 80 cs)) css)"
proof (cases "docs = []")
  case True
  with assms have "svc' = svc" by (simp add: indexDocuments_def)
  with True show ?thesis by simp
next
  case False
  from index_docs_acc [of env "take 20 docs" "[]" "[]" w]
  obtain css ms w1 where r:
    "index_docs env (take 20 docs) ([], []) w
       = Some ((concat (map (\<lambda>cs. map md_text (take 80 cs)) css), ms), w1)"
    "list_all2 (\<lambda>d cs. splitMarkdown (take 200000 (doc_content d)) 1200 150 = Some cs)
       (take 20 docs) css"
    "map ec_text ms = concat (map (\<lambda>cs. map md_text (take 80 cs)) css)" by auto
  define T where "T = concat (map (\<lambda>cs. map md_text (take 80 cs)) css)"
  have r1: "index_docs env (slice docs 0 MAX_DOCS) ([], []) w = Some ((T, ms), w1)"
    using r(1) by (simp add: T_def slice_def MAX_DOCS_def)
  have r3: "map ec_text ms = T"
    using r(3) by (simp add: T_def)
  show ?thesis
  proof (cases "T = []")
    case True
    with assms False r1 have "svc' = svc"
      by (simp add: indexDocuments_def)
    with True r(2) show ?thesis by (auto simp: T_def)
  next
    case nonempty: False
    obtain e2 w2 where e: "embed env (embedModel svc) T w1 = (e2, w2)"
      by (cases "embed env (embedModel svc) T w1")
    show ?thesis
    proof (cases e2)
      case (Inl err)
      with assms False r1 nonempty e show ?thesis
        by (simp add: indexDocuments_def)
    next
      case (Inr vectors)
      with assms False r1 nonempty e
      have svc': "svc' = svc\<lparr>vectorStore := addMany (vectorStore svc) ms vectors\<rparr>"
        by (simp add: indexDocuments_def)
      from e Inr have "length vectors = length T"
        using embed_length [of env "embedModel svc" T w1 vectors w2] by simp
      also have "\<dots> = length ms"
        using r3 by (metis length_map)
      finally have len: "length ms = length vectors" by simp
      let ?new = "map (\<lambda>(c, v). \<lparr>ec_id = ec_id c, ec_text = ec_text c, ec_meta = ec_meta c,
                                  ec_vector = v\<rparr>) (zip ms vectors)"
      have "map ec_text ?new = map ec_text ms"
        using map_zip_fst [OF len, of ec_text] by (simp add: comp_def case_prod_unfold)
      with r3 have "map ec_text ?new = concat (map (\<lambda>cs. map md_text (take 80 cs)) css)"
        by (simp add: T_def)
      moreover have "items (vectorStore svc') = items (vectorStore svc) @ ?new"
        by (simp add: svc' addMany_def)
      ultimately show ?thesis using r(2) by blast
    qed
  qed
qed

lemma index_chunks_truncated:
  "index_chunks env (truncated_doc doc) chs acc w = index_chunks env doc chs acc w"
  by (induction chs arbitrary: acc w) (auto simp: truncated_doc_def split: prod.splits)

lemma index_docs_truncated:
  "index_docs env (map truncated_doc docs) acc w = index_docs env docs acc w"
proof (induction docs arbitrary: acc w)
  case Nil
  then show ?case by simp
next
  case (Cons doc docs)
  have "slice (doc_content (truncated_doc doc)) 0 MAX_CHARS_PER_DOC
          = slice (doc_content doc) 0 MAX_CHARS_PER_DOC"
    by (simp add: truncated_doc_def slice_def MAX_CHARS_PER_DOC_def)
  with Cons show ?case
    by (simp add: index_chunks_truncated split: option.splits prod.splits)
qed

lemma indexDocuments_truncated:
  "indexDocuments env svc docs w = indexDocuments env svc (map truncated_doc (take 20 docs)) w"
proof (cases "docs = []")
  case True
  then show ?thesis by simp
next
  case False
  then have ne: "map truncated_doc (take 20 docs) \<noteq> []" by simp
  have "slice (map truncated_doc (take 20 docs)) 0 MAX_DOCS = map truncated_doc (slice docs 0 MAX_DOCS)"
    by (simp add: slice_def MAX_DOCS_def)
  with False ne show ?thesis
    by (simp add: indexDocuments_def index_docs_truncated)
qed

lemma one_chunk_each:
  assumes "list_all2 (\<lambda>d cs. f d = Some cs) ds css" "\<forall>d \<in> set ds. \<exists>c. f d = Some [c]"
  shows "length (concat (map (\<lambda>cs. map g (take 80 cs)) css)) = length ds"
  using assms by (induction ds css rule: list_all2_induct) auto

text \<open>
  C3.  \<open>indexDocuments\<close> does on a sequence of documents what it does on its first
  20 documents with each content cut to its first 200000 characters.  When it
  succeeds, the chunks it adds to the store are, document by document over the first
  20, the first 80 chunks that the chunker gives for the first 200000 characters of
  the document.  In particular, with 25 documents whose considered content gives one
  chunk each, a successful call adds exactly 20 chunks.
\<close>

theorem indexDocuments_caps:
  "indexDocuments env svc docs w
     = indexDocuments env svc (map truncated_doc (take 20 docs)) w \<and>
   (indexDocuments env svc docs w = Some (Inr svc', w') \<longrightarrow>
      (\<exists>css new.
         list_all2 (\<lambda>d cs. splitMarkdown (take 200000 (doc_content d)) 1200 150 = Some cs)
           (take 20 docs) css \<and>
         items (vectorStore svc') = items (vectorStore svc) @ new \<and>
         map ec_text new = concat (map (\<lambda>cs. map md_text (take 80 cs)) css))) \<and>
   (length docs = 25 \<and>
    (\<forall>d \<in> set docs. \<exists>c. splitMarkdown (take 200000 (doc_content d)) 1200 150 = Some [c]) \<and>
    indexDocuments env svc docs w = Some (Inr svc', w') \<longrightarrow>
      count (vectorStore svc') = count (vectorStore svc) + 20)"
proof -
  have c: "count (vectorStore svc') = count (vectorStore svc) + 20"
    if len: "length docs = 25"
      and one: "\<forall>d \<in> set docs. \<exists>c. splitMarkdown (take 200000 (doc_content d)) 1200 150 = Some [c]"
      and ok: "indexDocuments env svc docs w = Some (Inr svc', w')"
  proof -
    from indexDocuments_items [OF ok] obtain css new where r:
      "list_all2 (\<lambda>d cs. splitMarkdown (take 200000 (doc_content d)) 1200 150 = Some cs)
         (take 20 docs) css"
      "items (vectorStore svc') = items (vectorStore svc) @ new"
      "map ec_text new = concat (map (\<lambda>cs. map md_text (take 80 cs)) css)" by blast
    from one have "\<forall>d \<in> set (take 20 docs).
                      \<exists>c. splitMarkdown (take 200000 (doc_content d)) 1200 150 = Some [c]"
      by (meson in_set_takeD)
    from one_chunk_each [OF r(1) this, of md_text]
    have "length (concat (map (\<lambda>cs. map md_text (take 80 cs)) css)) = 20"
      using len by simp
    with r(3) have "length new = 20" by (metis length_map)
    with r(2) show ?thesis by (simp add: count_def)
  qed
  from indexDocuments_truncated [of env svc docs w] indexDocuments_items [of env svc docs w svc' w'] c
  show ?thesis by blast
qed

lemma embed_loop_example:
  "\<exists>vs. embed_loop (example_env lines) model texts vectors w = (Inr vs, w)"
  by (induction texts arbitrary: vectors) (simp_all add: example_env_def)

lemma indexDocuments_example:
  "\<exists>svc' w'. indexDocuments (example_env lines) svc docs w = Some (Inr svc', w')"
proof -
  obtain acc w1 where "index_docs (example_env lines) (slice docs 0 MAX_DOCS) ([], []) w = Some (acc, w1)"
    using index_docs_returns [of "example_env lines" "slice docs 0 MAX_DOCS" "([], [])" w] by auto
  moreover obtain vs where "embed (example_env lines) (embedModel svc) (fst acc) w1 = (Inr vs, w1)"
    using embed_loop_example [of lines "embedModel svc" "fst acc" "[]" w1] by (auto simp: embed_def)
  ultimately show ?thesis
    by (cases acc) (simp add: indexDocuments_def)
qed

theorem indexDocuments_caps_witness:
  "length (replicate 25 \<lparr>doc_id = js ''d'', doc_name = js ''d.md'', doc_size = Num 1,
                          doc_content = js ''a''\<rparr>) = 25 \<and>
   splitMarkdown (take 200000 (js ''a'')) 1200 150 = Some [\<lparr>md_text = js ''a'', md_section = None\<rparr>] \<and>
   (\<exists>svc' w'.
      indexDocuments (example_env []) example_service
        (replicate 25 \<lparr>doc_id = js ''d'', doc_name = js ''d.md'', doc_size = Num 1,
                        doc_content = js ''a''\<rparr>) 0 = Some (Inr svc', w') \<and>
      count (vectorStore svc') = count (vectorStore example_service) + 20)"
proof -
  let ?d = "\<lparr>doc_id = js ''d'', doc_name = js ''d.md'', doc_size = Num 1, doc_content = js ''a''\<rparr>"
  have "splitMarkdown (js ''a'') 1200 150 = Some [\<lparr>md_text = js ''a'', md_section = None\<rparr>]"
    by code_simp
  moreover have "take 200000 (js ''a'') = js ''a''"
    by (simp add: js_def)
  ultimately have one: "splitMarkdown (take 200000 (js ''a'')) 1200 150
               = Some [\<lparr>md_text = js ''a'', md_section = None\<rparr>]"
    by simp
  obtain svc' w' where ok:
    "indexDocuments (example_env []) example_service (replicate 25 ?d) 0 = Some (Inr svc', w')"
    using indexDocuments_example [of "[]" example_service "replicate 25 ?d" 0] by blast
  from indexDocuments_caps [of "example_env []" example_service "replicate 25 ?d" 0 svc' w'] ok one
  have "count (vectorStore svc') = count (vectorStore example_service) + 20"
    by simp
  with ok one show ?thesis by auto
qed

end
